theory Spec2Isabelle
  imports Main "HOL-Library.AList" "HOL-Library.Sublist"
begin

section \<open>Python values used by s32imdbpy.py\<close>

text \<open>
  A Python \<open>bytes\<close> object is a list of 8-bit characters; a Python \<open>str\<close> is a list of
  Unicode code points. Dictionaries are association lists in insertion order, written
  with \<open>AList.update\<close> (an existing key keeps its place, a new key goes to the end),
  read with \<open>map_of\<close>.
\<close>

type_synonym bytes = "char list"
type_synonym pystr = "nat list"

definition ascii :: "string \<Rightarrow> pystr" where
  "ascii s = map of_char s"

datatype exn = UnicodeDecodeError | ArgumentError | InvalidRequestError | Raised pystr

datatype 'o pyval = PyNone | PyStr pystr | PyObj 'o

type_synonym 'o row = "(pystr \<times> 'o pyval) list"

subsection \<open>\<open>bytes.decode('utf-8')\<close>\<close>

definition cont :: "nat \<Rightarrow> bool" where
  "cont b \<longleftrightarrow> 128 \<le> b \<and> b \<le> 191"

text \<open>
  The range of the second byte after the lead byte \<open>b0\<close>: narrower after \<open>E0\<close> and \<open>F0\<close>
  (no overlong form), after \<open>ED\<close> (no surrogate) and after \<open>F4\<close> (nothing above
  \<open>U+10FFFF\<close>).
\<close>

definition second_lo :: "nat \<Rightarrow> nat" where
  "second_lo b0 = (if b0 = 224 then 160 else if b0 = 240 then 144 else 128)"

definition second_hi :: "nat \<Rightarrow> nat" where
  "second_hi b0 = (if b0 = 237 then 159 else if b0 = 244 then 143 else 191)"

definition push :: "nat \<Rightarrow> exn + pystr \<Rightarrow> exn + pystr" where
  "push c r = (case r of Inl e \<Rightarrow> Inl e | Inr cs \<Rightarrow> Inr (c # cs))"

fun utf8 :: "nat list \<Rightarrow> exn + pystr" where
  "utf8 [] = Inr []"
| "utf8 (b0 # bs) =
    (if b0 < 128 then push b0 (utf8 bs)
     else if 194 \<le> b0 \<and> b0 \<le> 223 then
       (case bs of
          b1 # r \<Rightarrow>
            if cont b1 then push ((b0 - 192) * 64 + (b1 - 128)) (utf8 r)
            else Inl UnicodeDecodeError
        | _ \<Rightarrow> Inl UnicodeDecodeError)
     else if 224 \<le> b0 \<and> b0 \<le> 239 then
       (case bs of
          b1 # b2 # r \<Rightarrow>
            if second_lo b0 \<le> b1 \<and> b1 \<le> second_hi b0 \<and> cont b2
            then push ((b0 - 224) * 4096 + (b1 - 128) * 64 + (b2 - 128)) (utf8 r)
            else Inl UnicodeDecodeError
        | _ \<Rightarrow> Inl UnicodeDecodeError)
     else if 240 \<le> b0 \<and> b0 \<le> 244 then
       (case bs of
          b1 # b2 # b3 # r \<Rightarrow>
            if second_lo b0 \<le> b1 \<and> b1 \<le> second_hi b0 \<and> cont b2 \<and> cont b3
            then push ((b0 - 240) * 262144 + (b1 - 128) * 4096 + (b2 - 128) * 64 + (b3 - 128))
                   (utf8 r)
            else Inl UnicodeDecodeError
        | _ \<Rightarrow> Inl UnicodeDecodeError)
     else Inl UnicodeDecodeError)"

definition decode :: "bytes \<Rightarrow> exn + pystr" where
  "decode line = utf8 (map of_char line)"

subsection \<open>\<open>str.strip()\<close>, \<open>str.split(sep)\<close>, \<open>str.replace(old, new)\<close>\<close>

definition isspace :: "nat \<Rightarrow> bool" where
  "isspace c \<longleftrightarrow>
     (9 \<le> c \<and> c \<le> 13) \<or> (28 \<le> c \<and> c \<le> 32) \<or> c = 133 \<or> c = 160 \<or> c = 5760 \<or>
     (8192 \<le> c \<and> c \<le> 8202) \<or> c = 8232 \<or> c = 8233 \<or> c = 8239 \<or> c = 8287 \<or> c = 12288"

definition strip :: "pystr \<Rightarrow> pystr" where
  "strip s = rev (dropWhile isspace (rev (dropWhile isspace s)))"

fun split :: "nat \<Rightarrow> pystr \<Rightarrow> pystr list" where
  "split sep [] = [[]]"
| "split sep (c # cs) =
    (if c = sep then [] # split sep cs
     else (case split sep cs of f # fs \<Rightarrow> (c # f) # fs | [] \<Rightarrow> [[c]]))"

fun replace :: "pystr \<Rightarrow> pystr \<Rightarrow> pystr \<Rightarrow> pystr" where
  "replace old new [] = (if old = [] then new else [])"
| "replace old new (c # cs) =
    (if old = [] then new @ c # replace old new cs
     else if prefix old (c # cs) then new @ replace old new (drop (length old - 1) cs)
     else c # replace old new cs)"

definition TAB :: nat where "TAB = 9"

definition NULL_TOKEN :: pystr where
  "NULL_TOKEN = [92, 78]"

section \<open>Module constants and the Transform Registry\<close>

definition TSV_EXT :: pystr where
  "TSV_EXT = ascii ''.tsv.gz''"

definition BLOCK_SIZE :: nat where
  "BLOCK_SIZE = 10000"

text \<open>
  A storage type is \<open>sqlalchemy.UnicodeText\<close> or any other type object, which the script
  passes to \<open>sqlalchemy.Column\<close> as it finds it in the registry.
\<close>

datatype 't sa_type = UnicodeText | Type_object 't

text \<open>
  \<open>DB_TRANSFORM\<close> is imported from \<open>imdb.parser.s3.utils\<close> and is a parameter here: a
  dictionary from table name to a dictionary from column name to a configuration, of
  which the script reads the optional entries \<open>'type'\<close> and \<open>'transform'\<close>. An entry
  \<open>'type'\<close> that is missing or false in Python's sense is \<open>None\<close>.
\<close>

record ('o, 't) conf =
  col_type :: "'t sa_type option"
  transform :: "('o pyval \<Rightarrow> exn + 'o pyval) option"

type_synonym ('o, 't) registry = "(pystr \<times> (pystr \<times> ('o, 't) conf) list) list"

section \<open>\<open>build_table\<close>\<close>

record 't table =
  name :: pystr
  columns :: "(pystr \<times> 't sa_type) list"

text \<open>
  The module-wide \<open>sqlalchemy.MetaData()\<close> of line 40: the tables constructed so far,
  by name.
\<close>

type_synonym 't metadata = "(pystr \<times> 't table) list"

text \<open>
  \<open>sqlalchemy.Table(name, metadata, *columns)\<close>, as SQLAlchemy 1.4 has it. A name that
  the metadata holds already raises \<open>InvalidRequestError\<close> when columns are given, and
  gives the table of that name when none is. Otherwise the columns are attached in
  order: a column with a blank name raises \<open>ArgumentError\<close> (and the table is taken out
  of the metadata again), and a column whose name the table has already replaces the
  earlier column of that name, in its place.
\<close>

fun attach_columns ::
  "(pystr \<times> 't sa_type) list \<Rightarrow> (pystr \<times> 't sa_type) list
     \<Rightarrow> exn + (pystr \<times> 't sa_type) list" where
  "attach_columns [] cols = Inr cols"
| "attach_columns ((column_name, column_type) # rest) cols =
    (if column_name = [] then Inl ArgumentError
     else attach_columns rest (AList.update column_name column_type cols))"

definition Table ::
  "pystr \<Rightarrow> 't metadata \<Rightarrow> (pystr \<times> 't sa_type) list \<Rightarrow> exn + 't table \<times> 't metadata" where
  "Table table_name md cols =
     (case map_of md table_name of
        Some existing \<Rightarrow> if cols \<noteq> [] then Inl InvalidRequestError else Inr (existing, md)
      | None \<Rightarrow>
          (case attach_columns cols [] of
             Inl e \<Rightarrow> Inl e
           | Inr cs \<Rightarrow>
               (let tbl = \<lparr>name = table_name, columns = cs\<rparr>
                in Inr (tbl, md @ [(table_name, tbl)]))))"

definition table_name_of :: "pystr \<Rightarrow> pystr" where
  "table_name_of fn = replace (ascii ''.'') (ascii ''_'') (replace TSV_EXT [] fn)"

definition column_for :: "(pystr \<times> ('o, 't) conf) list \<Rightarrow> pystr \<Rightarrow> pystr \<times> 't sa_type" where
  "column_for table_map header =
     (let col_info = map_of table_map header;
          col_type = (case col_info of
                        None \<Rightarrow> UnicodeText
                      | Some c \<Rightarrow> (case col_type c of None \<Rightarrow> UnicodeText | Some t \<Rightarrow> t))
      in (header, col_type))"

text \<open>
  \<open>build_table\<close>, lines 88 to 96: the table and the metadata that holds it, or the
  exception that \<open>sqlalchemy.Table\<close> raised.
\<close>

definition build_table ::
  "('o, 't) registry \<Rightarrow> 't metadata \<Rightarrow> pystr \<Rightarrow> pystr list \<Rightarrow> exn + 't table \<times> 't metadata" where
  "build_table DB_TRANSFORM md fn headers =
     (let table_name = table_name_of fn;
          table_map = (case map_of DB_TRANSFORM table_name of None \<Rightarrow> [] | Some m \<Rightarrow> m);
          columns = fold (\<lambda>header columns. columns @ [column_for table_map header]) headers []
      in Table table_name md columns)"

section \<open>\<open>generate_content\<close>\<close>

text \<open>
  Lines 57 to 60: the transforms registered for the table, in the order of the
  registry's dictionary.
\<close>

definition data_transf_of ::
  "('o, 't) registry \<Rightarrow> pystr \<Rightarrow> (pystr \<times> ('o pyval \<Rightarrow> exn + 'o pyval)) list" where
  "data_transf_of DB_TRANSFORM table_name =
     fold (\<lambda>(column, conf) data_transf.
             (case transform conf of
                Some f \<Rightarrow> AList.update column f data_transf
              | None \<Rightarrow> data_transf))
          (case map_of DB_TRANSFORM table_name of None \<Rightarrow> [] | Some m \<Rightarrow> m) []"

text \<open>Line 65: the row before any transform, \<open>\N\<close> replaced by \<open>None\<close>.\<close>

definition null_field :: "pystr \<Rightarrow> 'o pyval" where
  "null_field x = (if x \<noteq> NULL_TOKEN then PyStr x else PyNone)"

definition zip_row :: "pystr list \<Rightarrow> pystr list \<Rightarrow> 'o row" where
  "zip_row headers s_line = AList.updates headers (map null_field s_line) []"

text \<open>Lines 66 to 69: a transform that raises ends the generator with its exception.\<close>

fun apply_transf ::
  "(pystr \<times> ('o pyval \<Rightarrow> exn + 'o pyval)) list \<Rightarrow> 'o row \<Rightarrow> exn + 'o row" where
  "apply_transf [] info = Inr info"
| "apply_transf ((key, tranf) # rest) info =
    (case map_of info key of
       None \<Rightarrow> apply_transf rest info
     | Some v \<Rightarrow>
         (case tranf v of
            Inl e \<Rightarrow> Inl e
          | Inr v' \<Rightarrow> apply_transf rest (AList.update key v' info)))"

text \<open>
  Lines 62 to 69, the body of the loop for one line: an exception, \<open>None\<close> for a line
  that \<open>continue\<close> skips, or the row to append.
\<close>

definition fields_of :: "pystr \<Rightarrow> pystr list" where
  "fields_of text = split TAB (strip text)"

definition process_line ::
  "(pystr \<times> ('o pyval \<Rightarrow> exn + 'o pyval)) list \<Rightarrow> pystr list \<Rightarrow> bytes
     \<Rightarrow> exn + 'o row option" where
  "process_line data_transf headers line =
     (case decode line of
        Inl e \<Rightarrow> Inl e
      | Inr text \<Rightarrow>
          (let s_line = fields_of text in
           if length s_line \<noteq> length headers then Inr None
           else (case apply_transf data_transf (zip_row headers s_line) of
                   Inl e \<Rightarrow> Inl e
                 | Inr info \<Rightarrow> Inr (Some info))))"

text \<open>
  The generator, run to its end: the blocks it yields, in order, and the exception that
  ended it, if one did. The first argument is the buffer \<open>data\<close>.
\<close>

fun generate_loop ::
  "(pystr \<times> ('o pyval \<Rightarrow> exn + 'o pyval)) list \<Rightarrow> pystr list \<Rightarrow> 'o row list \<Rightarrow> bytes list
     \<Rightarrow> 'o row list list \<times> exn option" where
  "generate_loop data_transf headers data [] = (if data \<noteq> [] then [data] else [], None)"
| "generate_loop data_transf headers data (line # fd) =
    (case process_line data_transf headers line of
       Inl e \<Rightarrow> ([], Some e)
     | Inr None \<Rightarrow> generate_loop data_transf headers data fd
     | Inr (Some info) \<Rightarrow>
         (let data' = data @ [info] in
          if length data' \<ge> BLOCK_SIZE
          then (case generate_loop data_transf headers [] fd of
                  (blocks, r) \<Rightarrow> (data' # blocks, r))
          else generate_loop data_transf headers data' fd))"

definition generate_content ::
  "('o, 't) registry \<Rightarrow> bytes list \<Rightarrow> pystr list \<Rightarrow> 't table \<Rightarrow> 'o row list list \<times> exn option" where
  "generate_content DB_TRANSFORM fd headers tbl =
     generate_loop (data_transf_of DB_TRANSFORM (name tbl)) headers [] fd"

section \<open>\<open>import_file\<close> and \<open>import_dir\<close>\<close>

datatype log_entry =
    Info_begin pystr
  | Debug_building pystr
  | Error_lost nat exn
  | Info_end pystr nat
  | Debug_skipping pystr

text \<open>
  The database is behind SQLAlchemy: \<open>metadata.create_all\<close> and \<open>connection.execute\<close>
  are parameters, each returning the new database or the exception it raised.
\<close>

record ('db, 'o, 't) engine =
  create_all :: "'db \<Rightarrow> 't table \<Rightarrow> exn + 'db"
  execute :: "'db \<Rightarrow> 't table \<Rightarrow> 'o row list \<Rightarrow> exn + 'db"

record ('db, 't) world =
  db :: 'db
  log :: "log_entry list"
  metadata :: "'t metadata"

definition basename :: "pystr \<Rightarrow> pystr" where
  "basename p = rev (takeWhile (\<lambda>c. c \<noteq> 47) (rev p))"

text \<open>
  Lines 115 to 119, the loop over the yielded blocks: the database, \<open>count\<close>, the
  variable \<open>block\<close> and the exception of \<open>connection.execute\<close> that left the loop.
  An insert that raises leaves the database as it was.
\<close>

fun insert_blocks ::
  "('db, 'o, 't) engine \<Rightarrow> 't table \<Rightarrow> 'o row list list \<Rightarrow> 'db \<Rightarrow> nat \<Rightarrow> 'o row list
     \<Rightarrow> 'db \<times> nat \<times> 'o row list \<times> exn option" where
  "insert_blocks eng tbl [] d count block = (d, count, block, None)"
| "insert_blocks eng tbl (b # blocks) d count block =
    (case execute eng d tbl b of
       Inl e \<Rightarrow> (d, count, b, Some e)
     | Inr d' \<Rightarrow> insert_blocks eng tbl blocks d' (count + length b) b)"

definition log_add :: "log_entry \<Rightarrow> ('db, 't) world \<Rightarrow> ('db, 't) world" where
  "log_add x w = w\<lparr>log := log w @ [x]\<rparr>"

text \<open>\<open>gz_file.readline()\<close>: the first line and the lines left, the empty line at the end of file.\<close>

definition readline :: "bytes list \<Rightarrow> bytes \<times> bytes list" where
  "readline gz_file = (case gz_file of [] \<Rightarrow> ([], []) | l # ls \<Rightarrow> (l, ls))"

text \<open>
  \<open>import_file\<close> on a file whose decompressed lines are \<open>gz_file\<close>: the world after it
  and the exception that left it, if one did. The \<open>try\<close> statement encloses the loop over
  the blocks only: what line 111 (decoding the header), line 112 (\<open>build_table\<close>) or line
  114 (\<open>create_all\<close>) raises leaves the function.
\<close>

definition import_file ::
  "('o, 't) registry \<Rightarrow> ('db, 'o, 't) engine \<Rightarrow> pystr \<Rightarrow> bytes list \<Rightarrow> ('db, 't) world
     \<Rightarrow> ('db, 't) world \<times> exn option" where
  "import_file DB_TRANSFORM eng fn gz_file w0 =
     (let w1 = log_add (Info_begin fn) w0;
          (first, fd) = readline gz_file
      in case decode first of
           Inl e \<Rightarrow> (w1, Some e)
         | Inr text \<Rightarrow>
             (let headers = fields_of text;
                  w2 = log_add (Debug_building (basename fn)) w1
              in case build_table DB_TRANSFORM (metadata w2) (basename fn) headers of
                   Inl e \<Rightarrow> (w2, Some e)
                 | Inr (tbl, md) \<Rightarrow>
                     (let w3 = w2\<lparr>metadata := md\<rparr>
                      in case create_all eng (db w3) tbl of
                           Inl e \<Rightarrow> (w3, Some e)
                         | Inr d0 \<Rightarrow>
                             (let (blocks, gen_exn) =
                                    generate_content DB_TRANSFORM fd headers tbl;
                                  (d, count, block, ins_exn) =
                                    insert_blocks eng tbl blocks d0 0 [];
                                  caught =
                                    (case ins_exn of Some e \<Rightarrow> Some e | None \<Rightarrow> gen_exn);
                                  w4 = w3\<lparr>db := d\<rparr>;
                                  w5 = (case caught of
                                          Some e \<Rightarrow> log_add (Error_lost (length block) e) w4
                                        | None \<Rightarrow> w4)
                              in (log_add (Info_end fn count) w5, None)))))"

datatype dir_entry = Regular_file "bytes list" | Not_a_file

fun import_dir ::
  "('o, 't) registry \<Rightarrow> ('db, 'o, 't) engine \<Rightarrow> (pystr \<times> dir_entry) list \<Rightarrow> ('db, 't) world
     \<Rightarrow> ('db, 't) world \<times> exn option" where
  "import_dir DB_TRANSFORM eng [] w = (w, None)"
| "import_dir DB_TRANSFORM eng ((fn, Not_a_file) # rest) w =
     import_dir DB_TRANSFORM eng rest (log_add (Debug_skipping fn) w)"
| "import_dir DB_TRANSFORM eng ((fn, Regular_file gz_file) # rest) w =
    (case import_file DB_TRANSFORM eng fn gz_file w of
       (w', Some e) \<Rightarrow> (w', Some e)
     | (w', None) \<Rightarrow> import_dir DB_TRANSFORM eng rest w')"

section \<open>Notions used to state the properties\<close>

text \<open>
  The field count of a data line, after decoding, stripping and splitting on the tab;
  \<open>None\<close> for a line that is not valid UTF-8.
\<close>

definition field_count :: "bytes \<Rightarrow> nat option" where
  "field_count line =
     (case decode line of Inl e \<Rightarrow> None | Inr text \<Rightarrow> Some (length (fields_of text)))"

text \<open>The rows that the lines of a stream give, one line at a time.\<close>

definition rows_of ::
  "(pystr \<times> ('o pyval \<Rightarrow> exn + 'o pyval)) list \<Rightarrow> pystr list \<Rightarrow> bytes list \<Rightarrow> 'o row list" where
  "rows_of dt hs fd =
     concat (map (\<lambda>l. case process_line dt hs l of Inr (Some r) \<Rightarrow> [r] | _ \<Rightarrow> []) fd)"

definition blocks_ok :: "'a list list \<Rightarrow> bool" where
  "blocks_ok bs \<longleftrightarrow>
     (\<forall>i<length bs. 1 \<le> length (bs ! i) \<and> length (bs ! i) \<le> BLOCK_SIZE \<and>
        (Suc i < length bs \<longrightarrow> length (bs ! i) = BLOCK_SIZE))"

text \<open>The storage type that the registry declares for a column of a table.\<close>

definition declared_type :: "('o, 't) registry \<Rightarrow> pystr \<Rightarrow> pystr \<Rightarrow> 't sa_type option" where
  "declared_type DB tn header =
     (case map_of DB tn of
        None \<Rightarrow> None
      | Some m \<Rightarrow> (case map_of m header of None \<Rightarrow> None | Some c \<Rightarrow> col_type c))"

text \<open>
  The table name in the words of the specification: the suffix \<open>.tsv.gz\<close> removed, then
  every dot replaced by an underscore. It is compared with \<open>table_name_of\<close>, which is
  what line 88 computes.
\<close>

definition dots_to_underscores :: "pystr \<Rightarrow> pystr" where
  "dots_to_underscores s = map (\<lambda>c. if c = 46 then 95 else c) s"

definition spec_table_name :: "pystr \<Rightarrow> pystr" where
  "spec_table_name fn =
     dots_to_underscores
       (if suffix TSV_EXT fn then take (length fn - length TSV_EXT) fn else fn)"

section \<open>Example inputs\<close>

text \<open>
  The scenario of the specification: header \<open>id<TAB>name\<close> and the data lines
  \<open>1<TAB>Alice\<close>, \<open>2<TAB>\N\<close> and \<open>bad<TAB>line<TAB>extra\<close>.
\<close>

definition ex_header_line :: bytes where
  "ex_header_line = ''id'' @ [CHR 0x09] @ ''name'' @ [CHR 0x0A]"

definition ex_headers :: "pystr list" where
  "ex_headers = [ascii ''id'', ascii ''name'']"

definition ex_line_alice :: bytes where
  "ex_line_alice = ''1'' @ [CHR 0x09] @ ''Alice'' @ [CHR 0x0A]"

definition ex_line_null :: bytes where
  "ex_line_null = ''2'' @ [CHR 0x09, CHR 0x5C] @ ''N'' @ [CHR 0x0A]"

definition ex_line_bad :: bytes where
  "ex_line_bad = ''bad'' @ [CHR 0x09] @ ''line'' @ [CHR 0x09] @ ''extra'' @ [CHR 0x0A]"

definition ex_lines :: "bytes list" where
  "ex_lines = [ex_line_alice, ex_line_null, ex_line_bad]"

text \<open>
  A line that is not valid UTF-8, a line whose second field is empty, and the line
  \<open>\N<TAB>Bob\<close>, whose \<open>id\<close> is null.
\<close>

definition ex_line_invalid :: bytes where
  "ex_line_invalid = [CHR 0xFF, CHR 0x0A]"

definition ex_line_trailing_tab :: bytes where
  "ex_line_trailing_tab = ''3'' @ [CHR 0x09, CHR 0x0A]"

definition ex_line_null_id :: bytes where
  "ex_line_null_id = [CHR 0x5C] @ ''N'' @ [CHR 0x09] @ ''Bob'' @ [CHR 0x0A]"

text \<open>
  Two transforms in the manner of \<open>int(x)\<close> and of \<open>x or ''\<close>, and registries that
  register them for the table \<open>names\<close>. Type objects are given by their names.
\<close>

definition Integer :: "pystr sa_type" where
  "Integer = Type_object (ascii ''Integer'')"

definition transf_int :: "nat pyval \<Rightarrow> exn + nat pyval" where
  "transf_int v =
     (case v of
        PyNone \<Rightarrow> Inl (Raised (ascii ''TypeError''))
      | PyStr s \<Rightarrow>
          if s \<noteq> [] \<and> list_all (\<lambda>c. 48 \<le> c \<and> c \<le> 57) s
          then Inr (PyObj (fold (\<lambda>c n. 10 * n + (c - 48)) s 0))
          else Inl (Raised (ascii ''ValueError''))
      | PyObj n \<Rightarrow> Inr (PyObj n))"

definition transf_blank :: "nat pyval \<Rightarrow> exn + nat pyval" where
  "transf_blank v = (case v of PyNone \<Rightarrow> Inr (PyStr []) | _ \<Rightarrow> Inr v)"

definition int_registry :: "(nat, pystr) registry" where
  "int_registry =
     [(ascii ''names'',
       [(ascii ''id'', \<lparr>col_type = Some Integer, transform = Some transf_int\<rparr>)])]"

definition blank_registry :: "(nat, pystr) registry" where
  "blank_registry =
     [(ascii ''names'',
       [(ascii ''name'', \<lparr>col_type = None, transform = Some transf_blank\<rparr>)])]"

definition names_table :: "pystr table" where
  "names_table =
     \<lparr>name = ascii ''names'',
      columns = [(ascii ''id'', Integer), (ascii ''name'', UnicodeText)]\<rparr>"

text \<open>
  A database that records every executed insert and never fails, a database that
  refuses to create a table, and the empty world.
\<close>

definition ex_engine :: "((pystr \<times> nat row list) list, nat, pystr) engine" where
  "ex_engine =
     \<lparr>create_all = (\<lambda>d t. Inr d),
      execute = (\<lambda>d t block. Inr (d @ [(name t, block)]))\<rparr>"

text \<open>
  A file with a data line that is not valid UTF-8, a file whose header is not, and a
  header that names the column \<open>id\<close> twice.
\<close>

definition broken_file :: "bytes list" where
  "broken_file = [ex_header_line, ex_line_alice, ex_line_invalid]"

definition headless_file :: "bytes list" where
  "headless_file = [ex_line_invalid]"

definition twice_headers :: "pystr list" where
  "twice_headers = [ascii ''id'', ascii ''id'']"

definition refusing_engine :: "((pystr \<times> nat row list) list, nat, pystr) engine" where
  "refusing_engine =
     \<lparr>create_all = (\<lambda>d t. Inl (Raised (ascii ''OperationalError''))),
      execute = (\<lambda>d t block. Inr (d @ [(name t, block)]))\<rparr>"

definition ex_world :: "((pystr \<times> nat row list) list, pystr) world" where
  "ex_world = \<lparr>db = [], log = [], metadata = []\<rparr>"

section \<open>The Row Block Generator\<close>

subsection \<open>Rows yielded and lines read\<close>

lemma rows_of_Nil: "rows_of dt hs [] = []"
  by (simp add: rows_of_def)

lemma rows_of_Cons:
  "rows_of dt hs (l # fd) =
     (case process_line dt hs l of Inr (Some r) \<Rightarrow> [r] | _ \<Rightarrow> []) @ rows_of dt hs fd"
  by (simp add: rows_of_def)

lemma generate_loop_rows:
  assumes "\<forall>l\<in>set fd. \<not> isl (process_line dt hs l)"
  shows "snd (generate_loop dt hs data fd) = None \<and>
         concat (fst (generate_loop dt hs data fd)) = data @ rows_of dt hs fd"
  using assms
proof (induction fd arbitrary: data)
  case Nil
  then show ?case by (simp add: rows_of_Nil)
next
  case (Cons l fd)
  from Cons.prems have nl: "\<not> isl (process_line dt hs l)"
    and rest: "\<forall>l\<in>set fd. \<not> isl (process_line dt hs l)" by simp_all
  from nl obtain r where r: "process_line dt hs l = Inr r"
    by (cases "process_line dt hs l") auto
  show ?case
  proof (cases r)
    case None
    with r Cons.IH[OF rest, of data] show ?thesis by (simp add: rows_of_Cons)
  next
    case (Some info)
    show ?thesis
    proof (cases "BLOCK_SIZE \<le> length (data @ [info])")
      case True
      obtain bs e where g: "generate_loop dt hs [] fd = (bs, e)"
        by (cases "generate_loop dt hs [] fd")
      with Cons.IH[OF rest, of "[]"] have "e = None" "concat bs = rows_of dt hs fd"
        by simp_all
      with r Some True g show ?thesis by (simp add: rows_of_Cons Let_def)
    next
      case False
      with r Some Cons.IH[OF rest, of "data @ [info]"] show ?thesis
        by (simp add: rows_of_Cons Let_def)
    qed
  qed
qed

lemma process_line_Some_iff:
  assumes "\<not> isl (process_line dt hs l)"
  shows "(\<exists>r. process_line dt hs l = Inr (Some r)) \<longleftrightarrow> field_count l = Some (length hs)"
  using assms
  by (auto simp: process_line_def field_count_def Let_def split: sum.splits if_splits)

lemma length_rows_of:
  assumes "\<forall>l\<in>set fd. \<not> isl (process_line dt hs l)"
  shows "length (rows_of dt hs fd) =
         length (filter (\<lambda>l. field_count l = Some (length hs)) fd)"
  using assms
proof (induction fd)
  case Nil
  then show ?case by (simp add: rows_of_Nil)
next
  case (Cons l fd)
  then have nl: "\<not> isl (process_line dt hs l)" by simp
  show ?case
  proof (cases "field_count l = Some (length hs)")
    case True
    with process_line_Some_iff[OF nl] obtain r where "process_line dt hs l = Inr (Some r)"
      by blast
    with True Cons show ?thesis by (simp add: rows_of_Cons)
  next
    case False
    with process_line_Some_iff[OF nl] have "\<forall>r. process_line dt hs l \<noteq> Inr (Some r)"
      by blast
    with False Cons show ?thesis
      by (simp add: rows_of_Cons split: sum.splits option.splits)
  qed
qed

lemma process_line_Some_count:
  assumes "process_line dt hs l = Inr (Some r)"
  shows "field_count l = Some (length hs)"
  using assms
  by (auto simp: process_line_def field_count_def Let_def split: sum.splits if_splits)

lemma generate_loop_length_le:
  "length (concat (fst (generate_loop dt hs data fd))) \<le>
     length data + length (filter (\<lambda>l. field_count l = Some (length hs)) fd)"
proof (induction fd arbitrary: data)
  case Nil
  then show ?case by simp
next
  case (Cons l fd)
  show ?case
  proof (cases "process_line dt hs l")
    case (Inl e)
    then show ?thesis by simp
  next
    case (Inr r)
    show ?thesis
    proof (cases r)
      case None
      with Inr Cons[of data] show ?thesis by simp
    next
      case (Some info)
      with Inr have m: "field_count l = Some (length hs)"
        by (simp add: process_line_Some_count)
      show ?thesis
      proof (cases "BLOCK_SIZE \<le> length (data @ [info])")
        case True
        obtain bs e where g: "generate_loop dt hs [] fd = (bs, e)"
          by (cases "generate_loop dt hs [] fd")
        with Cons[of "[]"] have "length (concat bs) \<le>
            length (filter (\<lambda>l. field_count l = Some (length hs)) fd)"
          by simp
        with Inr Some True g m show ?thesis by (simp add: Let_def)
      next
        case False
        with Inr Some Cons[of "data @ [info]"] m show ?thesis by (simp add: Let_def)
      qed
    qed
  qed
qed

lemma generate_loop_row_origin:
  assumes "row \<in> set (concat (fst (generate_loop dt hs data fd)))"
  shows "row \<in> set data \<or> (\<exists>l\<in>set fd. process_line dt hs l = Inr (Some row))"
  using assms
proof (induction fd arbitrary: data)
  case Nil
  then show ?case by (simp split: if_splits)
next
  case (Cons l fd)
  show ?case
  proof (cases "process_line dt hs l")
    case (Inl e)
    with Cons.prems show ?thesis by simp
  next
    case (Inr r)
    show ?thesis
    proof (cases r)
      case None
      with Inr Cons.prems have "row \<in> set (concat (fst (generate_loop dt hs data fd)))"
        by simp
      from Cons.IH[OF this] show ?thesis by auto
    next
      case (Some info)
      show ?thesis
      proof (cases "BLOCK_SIZE \<le> length (data @ [info])")
        case True
        obtain bs e where g: "generate_loop dt hs [] fd = (bs, e)"
          by (cases "generate_loop dt hs [] fd")
        with Inr Some True Cons.prems
        have "row \<in> set data \<or> row = info \<or> row \<in> set (concat bs)"
          by (auto simp: Let_def)
        moreover have "row \<in> set (concat bs) \<Longrightarrow>
            \<exists>l\<in>set fd. process_line dt hs l = Inr (Some row)"
          using Cons.IH[of "[]"] g by simp
        ultimately show ?thesis using Inr Some by auto
      next
        case False
        with Inr Some Cons.prems
        have "row \<in> set (concat (fst (generate_loop dt hs (data @ [info]) fd)))"
          by (simp add: Let_def)
        from Cons.IH[OF this] Inr Some show ?thesis by auto
      qed
    qed
  qed
qed

subsection \<open>Block sizes\<close>

lemma blocks_ok_Nil: "blocks_ok []"
  by (simp add: blocks_ok_def)

lemma blocks_ok_single: "1 \<le> length b \<Longrightarrow> length b \<le> BLOCK_SIZE \<Longrightarrow> blocks_ok [b]"
  by (simp add: blocks_ok_def)

lemma blocks_ok_Cons:
  assumes b: "length b = BLOCK_SIZE" and ok: "blocks_ok bs"
  shows "blocks_ok (b # bs)"
  unfolding blocks_ok_def
proof (intro allI impI)
  fix i assume i: "i < length (b # bs)"
  have pos: "1 \<le> BLOCK_SIZE" by (simp add: BLOCK_SIZE_def)
  show "1 \<le> length ((b # bs) ! i) \<and> length ((b # bs) ! i) \<le> BLOCK_SIZE \<and>
        (Suc i < length (b # bs) \<longrightarrow> length ((b # bs) ! i) = BLOCK_SIZE)"
  proof (cases i)
    case 0
    with b pos show ?thesis by simp
  next
    case (Suc j)
    with i ok show ?thesis by (simp add: blocks_ok_def)
  qed
qed

lemma generate_loop_blocks_ok:
  assumes "length data < BLOCK_SIZE"
  shows "blocks_ok (fst (generate_loop dt hs data fd))"
  using assms
proof (induction fd arbitrary: data)
  case Nil
  then show ?case by (simp add: blocks_ok_Nil blocks_ok_single Suc_leI)
next
  case (Cons l fd)
  have pos: "length ([]::'a row list) < BLOCK_SIZE" by (simp add: BLOCK_SIZE_def)
  show ?case
  proof (cases "process_line dt hs l")
    case (Inl e)
    then show ?thesis by (simp add: blocks_ok_Nil)
  next
    case (Inr r)
    show ?thesis
    proof (cases r)
      case None
      with Inr Cons show ?thesis by simp
    next
      case (Some info)
      show ?thesis
      proof (cases "BLOCK_SIZE \<le> length (data @ [info])")
        case True
        with Cons.prems have len: "length (data @ [info]) = BLOCK_SIZE" by simp
        obtain bs e where g: "generate_loop dt hs [] fd = (bs, e)"
          by (cases "generate_loop dt hs [] fd")
        with Cons.IH[OF pos] have "blocks_ok bs" by simp
        with len have "blocks_ok ((data @ [info]) # bs)" by (rule blocks_ok_Cons)
        with Inr Some True g show ?thesis by (simp add: Let_def)
      next
        case False
        then have "length (data @ [info]) < BLOCK_SIZE" by simp
        from Cons.IH[OF this] Inr Some False show ?thesis by (simp add: Let_def)
      qed
    qed
  qed
qed

lemma blocks_ok_short:
  assumes "blocks_ok bs" and "length bs \<le> 1"
  shows "length (concat bs) \<le> BLOCK_SIZE"
proof (cases bs)
  case Nil
  then show ?thesis by simp
next
  case (Cons b rest)
  with assms(2) have "bs = [b]" by simp
  with assms(1) show ?thesis by (simp add: blocks_ok_def)
qed

subsection \<open>Skipped lines\<close>

lemma generate_loop_skip:
  assumes "process_line dt hs l = Inr None"
  shows "generate_loop dt hs data (pre @ l # post) = generate_loop dt hs data (pre @ post)"
proof (induction pre arbitrary: data)
  case Nil
  from assms show ?case by simp
next
  case (Cons a pre)
  then show ?case by (simp add: Let_def split: sum.splits option.splits)
qed

lemma process_line_mismatch:
  assumes "field_count l = Some n" and "n \<noteq> length hs"
  shows "process_line dt hs l = Inr None"
  using assms by (auto simp: process_line_def field_count_def Let_def split: sum.splits)

subsection \<open>The example lines\<close>

lemma decode_ex_line_alice: "decode ex_line_alice = Inr [49, 9, 65, 108, 105, 99, 101, 10]"
  by (simp add: decode_def push_def ex_line_alice_def)

lemma decode_ex_line_null: "decode ex_line_null = Inr [50, 9, 92, 78, 10]"
  by (simp add: decode_def push_def ex_line_null_def)

lemma decode_ex_line_bad:
  "decode ex_line_bad = Inr [98, 97, 100, 9, 108, 105, 110, 101, 9, 101, 120, 116, 114, 97, 10]"
  by (simp add: decode_def push_def ex_line_bad_def)

lemma decode_ex_line_null_id: "decode ex_line_null_id = Inr [92, 78, 9, 66, 111, 98, 10]"
  by (simp add: decode_def push_def ex_line_null_id_def)

lemma fields_ex_line_null_id:
  "fields_of [92, 78, 9, 66, 111, 98, 10] = [NULL_TOKEN, ascii ''Bob'']"
  by (simp add: fields_of_def strip_def isspace_def TAB_def NULL_TOKEN_def ascii_def)

lemma decode_ex_line_invalid: "decode ex_line_invalid = Inl UnicodeDecodeError"
  by (simp add: decode_def ex_line_invalid_def)

lemma decode_ex_header_line: "decode ex_header_line = Inr [105, 100, 9, 110, 97, 109, 101, 10]"
  by (simp add: decode_def push_def ex_header_line_def)

lemma fields_ex_line_alice:
  "fields_of [49, 9, 65, 108, 105, 99, 101, 10] = [[49], [65, 108, 105, 99, 101]]"
  by (simp add: fields_of_def strip_def isspace_def TAB_def)

lemma fields_ex_line_null: "fields_of [50, 9, 92, 78, 10] = [[50], NULL_TOKEN]"
  by (simp add: fields_of_def strip_def isspace_def TAB_def NULL_TOKEN_def)

lemma fields_ex_line_bad:
  "fields_of [98, 97, 100, 9, 108, 105, 110, 101, 9, 101, 120, 116, 114, 97, 10] =
     [[98, 97, 100], [108, 105, 110, 101], [101, 120, 116, 114, 97]]"
  by (simp add: fields_of_def strip_def isspace_def TAB_def)

lemma fields_ex_header_line: "fields_of [105, 100, 9, 110, 97, 109, 101, 10] = ex_headers"
  by (simp add: fields_of_def strip_def isspace_def TAB_def ex_headers_def ascii_def)

lemma field_count_ex_lines:
  "field_count ex_line_alice = Some 2" "field_count ex_line_null = Some 2"
  "field_count ex_line_bad = Some 3"
  by (simp_all add: field_count_def decode_ex_line_alice decode_ex_line_null decode_ex_line_bad
      fields_ex_line_alice fields_ex_line_null fields_ex_line_bad)

lemma data_transf_int_registry:
  "data_transf_of int_registry (name names_table) = [(ascii ''id'', transf_int)]"
  by (simp add: data_transf_of_def int_registry_def names_table_def ascii_def)

lemma data_transf_blank_registry:
  "data_transf_of blank_registry (name names_table) = [(ascii ''name'', transf_blank)]"
  by (simp add: data_transf_of_def blank_registry_def names_table_def ascii_def)

lemma process_ex_line_alice_int:
  "process_line [(ascii ''id'', transf_int)] ex_headers ex_line_alice =
     Inr (Some [(ascii ''id'', PyObj 1), (ascii ''name'', PyStr (ascii ''Alice''))])"
  by (simp add: process_line_def decode_ex_line_alice fields_ex_line_alice ex_headers_def
      zip_row_def null_field_def NULL_TOKEN_def transf_int_def ascii_def)

lemma process_ex_line_null_int:
  "process_line [(ascii ''id'', transf_int)] ex_headers ex_line_null =
     Inr (Some [(ascii ''id'', PyObj 2), (ascii ''name'', PyNone)])"
  by (simp add: process_line_def decode_ex_line_null fields_ex_line_null ex_headers_def
      zip_row_def null_field_def NULL_TOKEN_def transf_int_def ascii_def)

lemma process_ex_line_null_id_int:
  "process_line [(ascii ''id'', transf_int)] ex_headers ex_line_null_id =
     Inl (Raised (ascii ''TypeError''))"
  by (simp add: process_line_def decode_ex_line_null_id fields_ex_line_null_id ex_headers_def
      zip_row_def null_field_def NULL_TOKEN_def transf_int_def ascii_def)

lemma process_ex_line_bad: "process_line dt ex_headers ex_line_bad = Inr None"
  by (simp add: process_line_def decode_ex_line_bad fields_ex_line_bad ex_headers_def)

lemma small_below_BLOCK_SIZE: "n \<le> 9 \<Longrightarrow> \<not> BLOCK_SIZE \<le> n"
  by (simp add: BLOCK_SIZE_def)

lemma generate_ex_lines_int:
  "generate_content int_registry ex_lines ex_headers names_table =
     ([[[(ascii ''id'', PyObj 1), (ascii ''name'', PyStr (ascii ''Alice''))],
        [(ascii ''id'', PyObj 2), (ascii ''name'', PyNone)]]], None)"
  by (simp add: generate_content_def data_transf_int_registry ex_lines_def
      process_ex_line_alice_int process_ex_line_null_int process_ex_line_bad
      small_below_BLOCK_SIZE)

subsection \<open>Claims about the generator\<close>

text \<open>
  C1, as the code has it. The blocks that the generator yields never hold, together,
  more rows than there are data lines whose field count, after decoding, stripping and
  splitting on the tab, equals the number of headers. They hold exactly as many, and the
  generator ends normally, when no line of the stream raises: every line is valid UTF-8
  and no registered transform raises on a field.
\<close>

theorem generate_content_row_count:
  "length (concat (fst (generate_content DB fd headers tbl))) \<le>
     length (filter (\<lambda>l. field_count l = Some (length headers)) fd) \<and>
   ((\<forall>l\<in>set fd. \<not> isl (process_line (data_transf_of DB (name tbl)) headers l)) \<longrightarrow>
      snd (generate_content DB fd headers tbl) = None \<and>
      length (concat (fst (generate_content DB fd headers tbl))) =
        length (filter (\<lambda>l. field_count l = Some (length headers)) fd))"
proof -
  let ?dt = "data_transf_of DB (name tbl)"
  have le: "length (concat (fst (generate_content DB fd headers tbl))) \<le>
      length (filter (\<lambda>l. field_count l = Some (length headers)) fd)"
    using generate_loop_length_le[of ?dt headers "[]" fd] by (simp add: generate_content_def)
  have "snd (generate_content DB fd headers tbl) = None \<and>
      length (concat (fst (generate_content DB fd headers tbl))) =
        length (filter (\<lambda>l. field_count l = Some (length headers)) fd)"
    if h: "\<forall>l\<in>set fd. \<not> isl (process_line ?dt headers l)"
    using generate_loop_rows[OF h, of "[]"] length_rows_of[OF h]
    by (simp add: generate_content_def)
  with le show ?thesis by blast
qed

theorem generate_content_row_count_witness:
  "\<not> isl (process_line (data_transf_of int_registry (name names_table)) ex_headers ex_line_alice) \<and>
   \<not> isl (process_line (data_transf_of int_registry (name names_table)) ex_headers ex_line_null) \<and>
   \<not> isl (process_line (data_transf_of int_registry (name names_table)) ex_headers ex_line_bad) \<and>
   snd (generate_content int_registry ex_lines ex_headers names_table) = None \<and>
   length (concat (fst (generate_content int_registry ex_lines ex_headers names_table))) = 2 \<and>
   length (filter (\<lambda>l. field_count l = Some (length ex_headers)) ex_lines) = 2"
proof -
  have h: "\<forall>l\<in>set ex_lines.
      \<not> isl (process_line (data_transf_of int_registry (name names_table)) ex_headers l)"
    by (simp add: ex_lines_def data_transf_int_registry process_ex_line_alice_int
        process_ex_line_null_int process_ex_line_bad)
  have c: "length (filter (\<lambda>l. field_count l = Some (length ex_headers)) ex_lines) = 2"
    by (simp add: ex_lines_def field_count_ex_lines ex_headers_def)
  from generate_content_row_count[of int_registry ex_lines ex_headers names_table] h
  have "snd (generate_content int_registry ex_lines ex_headers names_table) = None \<and>
      length (concat (fst (generate_content int_registry ex_lines ex_headers names_table))) =
        length (filter (\<lambda>l. field_count l = Some (length ex_headers)) ex_lines)"
    by blast
  with h c show ?thesis by (simp add: ex_lines_def)
qed

text \<open>
  As the claim words it, for every stream that conforms to the layout, the property
  fails: the line \<open>\N<TAB>Bob\<close> has two fields, as the header has, and with a transform
  in the manner of \<open>int(x)\<close> registered for \<open>id\<close> the generator raises on it and yields
  no row.
\<close>

theorem generate_content_row_count_counterexample:
  "decode ex_line_null_id = Inr [92, 78, 9, 66, 111, 98, 10] \<and>
   fields_of [92, 78, 9, 66, 111, 98, 10] = [NULL_TOKEN, ascii ''Bob''] \<and>
   length (filter (\<lambda>l. field_count l = Some (length ex_headers)) [ex_line_null_id]) = 1 \<and>
   generate_content int_registry [ex_line_null_id] ex_headers names_table =
     ([], Some (Raised (ascii ''TypeError''))) \<and>
   length (concat (fst (generate_content int_registry [ex_line_null_id] ex_headers names_table))) = 0"
proof -
  have c: "field_count ex_line_null_id = Some (length ex_headers)"
    by (simp add: field_count_def decode_ex_line_null_id fields_ex_line_null_id ex_headers_def)
  have g: "generate_content int_registry [ex_line_null_id] ex_headers names_table =
     ([], Some (Raised (ascii ''TypeError'')))"
    by (simp add: generate_content_def data_transf_int_registry process_ex_line_null_id_int)
  from c g show ?thesis
    by (simp add: decode_ex_line_null_id fields_ex_line_null_id)
qed

text \<open>
  C2. Every block that the generator yields holds at least one row and at most
  \<open>BLOCK_SIZE\<close> rows, and every block but the last holds exactly \<open>BLOCK_SIZE\<close> rows: an
  empty block is never yielded, so nothing follows the full blocks when no row is left
  over.
\<close>

theorem generate_content_block_sizes:
  assumes "generate_content DB fd headers tbl = (blocks, r)" and "i < length blocks"
  shows "1 \<le> length (blocks ! i) \<and> length (blocks ! i) \<le> BLOCK_SIZE \<and>
         (Suc i < length blocks \<longrightarrow> length (blocks ! i) = BLOCK_SIZE)"
proof -
  have "length ([]::'a row list) < BLOCK_SIZE" by (simp add: BLOCK_SIZE_def)
  from generate_loop_blocks_ok[OF this, of "data_transf_of DB (name tbl)" headers fd] assms(1)
  have "blocks_ok blocks" by (simp add: generate_content_def)
  with assms(2) show ?thesis unfolding blocks_ok_def by blast
qed

text \<open>
  The witness reads 10001 copies of the line \<open>1<TAB>Alice\<close>: more than one block is
  yielded and the first holds exactly 10000 rows.
\<close>

theorem generate_content_block_sizes_witness:
  "Suc 0 < length (fst (generate_content int_registry (replicate 10001 ex_line_alice)
                          ex_headers names_table)) \<and>
   length (fst (generate_content int_registry (replicate 10001 ex_line_alice)
                  ex_headers names_table) ! 0) = 10000"
proof -
  let ?dt = "data_transf_of int_registry (name names_table)"
  let ?fd = "replicate 10001 ex_line_alice"
  let ?G = "generate_content int_registry ?fd ex_headers names_table"
  have nr: "\<forall>l\<in>set ?fd. \<not> isl (process_line ?dt ex_headers l)"
    by (simp add: data_transf_int_registry process_ex_line_alice_int)
  have "length (concat (fst ?G)) = length (rows_of ?dt ex_headers ?fd)"
    using generate_loop_rows[OF nr, of "[]"] by (simp add: generate_content_def)
  also have "\<dots> = length (filter (\<lambda>l. field_count l = Some (length ex_headers)) ?fd)"
    by (rule length_rows_of[OF nr])
  also have "\<dots> = 10001"
    by (simp add: field_count_ex_lines ex_headers_def)
  finally have total: "length (concat (fst ?G)) = 10001" .
  have ok: "blocks_ok (fst ?G)"
    unfolding generate_content_def
    by (rule generate_loop_blocks_ok) (simp add: BLOCK_SIZE_def)
  have many: "Suc 0 < length (fst ?G)"
  proof (rule ccontr)
    assume "\<not> Suc 0 < length (fst ?G)"
    then have "length (fst ?G) \<le> 1" by simp
    from blocks_ok_short[OF ok this] total show False by (simp add: BLOCK_SIZE_def)
  qed
  then have i: "0 < length (fst ?G)" by (rule Suc_lessD)
  have eq: "?G = (fst ?G, snd ?G)" by simp
  from generate_content_block_sizes[OF eq i] many show ?thesis
    by (simp add: BLOCK_SIZE_def)
qed

text \<open>
  C4. A data line whose field count differs from the number of headers gives no row and
  raises nothing: the generator yields the same blocks, and ends the same way, as on the
  stream without that line, and \<open>import_file\<close> leaves the same database and the same
  log (no entry for the line, the same count in the summary) as on the file without it.
\<close>

theorem mismatched_line_dropped:
  assumes "field_count l = Some n" and "n \<noteq> length headers"
  shows "process_line (data_transf_of DB (name tbl)) headers l = Inr None \<and>
         generate_content DB (pre @ l # post) headers tbl =
           generate_content DB (pre @ post) headers tbl \<and>
         (\<forall>h ht. decode h = Inr ht \<and> fields_of ht = headers \<longrightarrow>
            import_file DB eng fn (h # pre @ l # post) w =
              import_file DB eng fn (h # pre @ post) w)"
proof -
  have skip: "process_line dt headers l = Inr None" for dt :: "(pystr \<times> ('a pyval \<Rightarrow> exn + 'a pyval)) list"
    using assms by (rule process_line_mismatch)
  have gen: "generate_content DB (pre @ l # post) headers t =
      generate_content DB (pre @ post) headers t" for t
    unfolding generate_content_def by (rule generate_loop_skip[OF skip])
  have "import_file DB eng fn (h # pre @ l # post) w = import_file DB eng fn (h # pre @ post) w"
    if "decode h = Inr ht" "fields_of ht = headers" for h ht
    using that by (simp add: import_file_def readline_def gen Let_def split: sum.splits prod.splits)
  with skip gen show ?thesis by blast
qed

theorem mismatched_line_dropped_witness:
  "field_count ex_line_bad = Some 3 \<and> 3 \<noteq> length ex_headers \<and>
   process_line (data_transf_of int_registry (name names_table)) ex_headers ex_line_bad = Inr None \<and>
   generate_content int_registry [ex_line_alice, ex_line_null, ex_line_bad] ex_headers names_table =
     generate_content int_registry [ex_line_alice, ex_line_null] ex_headers names_table \<and>
   import_file int_registry ex_engine (ascii ''names.tsv.gz'')
       [ex_header_line, ex_line_alice, ex_line_null, ex_line_bad] ex_world =
     import_file int_registry ex_engine (ascii ''names.tsv.gz'')
       [ex_header_line, ex_line_alice, ex_line_null] ex_world"
proof -
  have h1: "field_count ex_line_bad = Some 3" by (rule field_count_ex_lines)
  have h2: "3 \<noteq> length ex_headers" by (simp add: ex_headers_def)
  have h3: "decode ex_header_line = Inr [105, 100, 9, 110, 97, 109, 101, 10] \<and>
      fields_of [105, 100, 9, 110, 97, 109, 101, 10] = ex_headers"
    by (simp add: decode_ex_header_line fields_ex_header_line)
  from mismatched_line_dropped[OF h1 h2, of int_registry names_table
      "[ex_line_alice, ex_line_null]" "[]" ex_engine "ascii ''names.tsv.gz''" ex_world]
    h1 h2 h3 show ?thesis by auto
qed

section \<open>Stripping and splitting\<close>

lemma length_split: "length (split sep s) = Suc (count_list s sep)"
  by (induction s) (auto split: list.splits)

lemma strip_append_space:
  assumes "\<forall>c\<in>set w. isspace c"
  shows "strip (u @ w) = strip u"
proof (cases "\<forall>c\<in>set u. isspace c")
  case True
  with assms have "\<forall>c\<in>set (u @ w). isspace c" by auto
  then have "dropWhile isspace (u @ w) = []" by (simp only: dropWhile_eq_Nil_conv)
  moreover from True have "dropWhile isspace u = []" by (simp only: dropWhile_eq_Nil_conv)
  ultimately show ?thesis by (simp only: strip_def)
next
  case False
  then obtain x where "x \<in> set u" "\<not> isspace x" by blast
  then have "dropWhile isspace (u @ w) = dropWhile isspace u @ w"
    by (rule dropWhile_append1)
  moreover from assms have "dropWhile isspace (rev w @ rev (dropWhile isspace u)) =
      dropWhile isspace (rev (dropWhile isspace u))"
    by (intro dropWhile_append2) simp
  ultimately show ?thesis by (simp add: strip_def)
qed

lemma count_list_dropWhile: "count_list (dropWhile P xs) x \<le> count_list xs x"
  by (induction xs) auto

lemma count_list_reversed: "count_list (rev xs) x = count_list xs x"
  by (induction xs) auto

lemma count_list_strip: "count_list (strip s) x \<le> count_list s x"
proof -
  have "count_list (strip s) x = count_list (dropWhile isspace (rev (dropWhile isspace s))) x"
    by (simp add: strip_def count_list_reversed)
  also have "\<dots> \<le> count_list (rev (dropWhile isspace s)) x" by (rule count_list_dropWhile)
  also have "\<dots> = count_list (dropWhile isspace s) x" by (rule count_list_reversed)
  also have "\<dots> \<le> count_list s x" by (rule count_list_dropWhile)
  finally show ?thesis .
qed

lemma isspace_TAB: "isspace TAB"
  by (simp add: isspace_def TAB_def)

lemma fields_trailing_tab:
  assumes "\<forall>c\<in>set e. isspace c"
  shows "length (fields_of (u @ TAB # e)) < length (split TAB (u @ [TAB]))"
proof -
  from assms isspace_TAB have "\<forall>c\<in>set (TAB # e). isspace c" by simp
  then have "strip (u @ TAB # e) = strip u" by (rule strip_append_space)
  then have "length (fields_of (u @ TAB # e)) = Suc (count_list (strip u) TAB)"
    by (simp add: fields_of_def length_split)
  also have "\<dots> \<le> Suc (count_list u TAB)" using count_list_strip[of u TAB] by simp
  also have "\<dots> < length (split TAB (u @ [TAB]))" by (simp add: length_split)
  finally show ?thesis .
qed

text \<open>
  C10. A data line that ends in a tab, before its line terminator, has an empty last
  field. \<open>strip()\<close> removes the tab with the terminator, so the line splits into fewer
  fields than it has in the file: a line with as many tab-separated fields as there are
  headers is dropped.
\<close>

theorem trailing_tab_line_dropped:
  assumes "decode line = Inr (u @ TAB # e)" and "set e \<subseteq> {10, 13}"
    and "length (split TAB (u @ [TAB])) = length headers"
  shows "process_line data_transf headers line = Inr None"
proof -
  from assms(2) have "\<forall>c\<in>set e. isspace c" by (auto simp: isspace_def)
  from fields_trailing_tab[OF this, of u] assms(3)
  have "length (fields_of (u @ TAB # e)) \<noteq> length headers" by simp
  with assms(1) show ?thesis by (simp add: process_line_def Let_def)
qed

theorem trailing_tab_line_dropped_witness:
  "decode ex_line_trailing_tab = Inr ([51] @ TAB # [10]) \<and>
   set [10::nat] \<subseteq> {10, 13} \<and>
   length (split TAB ([51] @ [TAB])) = length ex_headers \<and>
   process_line (data_transf_of int_registry (name names_table)) ex_headers
     ex_line_trailing_tab = Inr None"
proof -
  have h1: "decode ex_line_trailing_tab = Inr ([51] @ TAB # [10])"
    by (simp add: decode_def push_def ex_line_trailing_tab_def TAB_def)
  have h2: "set [10::nat] \<subseteq> {10, 13}" by simp
  have h3: "length (split TAB ([51] @ [TAB])) = length ex_headers"
    by (simp add: TAB_def ex_headers_def)
  from trailing_tab_line_dropped[OF h1 h2 h3] h1 h2 h3 show ?thesis by blast
qed

section \<open>The Schema Builder\<close>

lemma fold_snoc_map: "fold (\<lambda>x acc. acc @ [f x]) xs ys = ys @ map f xs"
  by (induction xs arbitrary: ys) auto

lemma update_fresh: "k \<notin> fst ` set al \<Longrightarrow> AList.update k v al = al @ [(k, v)]"
  by (induction al) auto

lemma attach_columns_distinct:
  assumes "distinct (map fst cs)" and "[] \<notin> fst ` set cs"
    and "fst ` set cs \<inter> fst ` set acc = {}"
  shows "attach_columns cs acc = Inr (acc @ cs)"
  using assms
proof (induction cs arbitrary: acc)
  case Nil
  then show ?case by simp
next
  case (Cons c cs)
  obtain n ty where c: "c = (n, ty)" by (cases c)
  from Cons.prems c have n: "n \<noteq> []" "n \<notin> fst ` set acc" "n \<notin> fst ` set cs"
    by auto
  from n(2) have u: "AList.update n ty acc = acc @ [(n, ty)]" by (rule update_fresh)
  from Cons.prems c n(3) have "distinct (map fst cs)" "[] \<notin> fst ` set cs"
    "fst ` set cs \<inter> fst ` set (acc @ [(n, ty)]) = {}"
    by auto
  from Cons.IH[OF this] c n(1) u show ?case by simp
qed

lemma column_for_name: "map fst (map (column_for table_map) headers) = headers"
  by (induction headers) (simp_all add: column_for_def Let_def)

lemma column_for_type:
  "column_for (case map_of DB tn of None \<Rightarrow> [] | Some m \<Rightarrow> m) header =
     (header, case declared_type DB tn header of Some t \<Rightarrow> t | None \<Rightarrow> UnicodeText)"
  by (simp add: column_for_def declared_type_def Let_def split: option.splits)

text \<open>
  C9, as the code has it. For headers that are distinct and not blank, and a table name
  that the metadata does not hold yet, \<open>build_table\<close> builds a table that has one column
  for each header, in the order of the headers; the storage type of a column is the
  type that the registry declares for the table name and the header, and \<open>UnicodeText\<close>
  when it declares none. An empty list of headers gives a table without columns.
\<close>

theorem build_table_columns:
  assumes "distinct headers" and "[] \<notin> set headers"
    and "map_of md (table_name_of fn) = None"
  shows "\<exists>tbl. build_table DB md fn headers = Inr (tbl, md @ [(table_name_of fn, tbl)]) \<and>
           name tbl = table_name_of fn \<and>
           length (columns tbl) = length headers \<and>
           (\<forall>i<length headers.
              columns tbl ! i =
                (headers ! i,
                 case declared_type DB (table_name_of fn) (headers ! i) of
                   Some t \<Rightarrow> t | None \<Rightarrow> UnicodeText)) \<and>
           (headers = [] \<longrightarrow> columns tbl = [])"
proof -
  let ?tm = "case map_of DB (table_name_of fn) of None \<Rightarrow> [] | Some m \<Rightarrow> m"
  let ?cs = "map (column_for ?tm) headers"
  have names: "map fst ?cs = headers" by (rule column_for_name)
  with assms(1) have d: "distinct (map fst ?cs)" by simp
  from names have "fst ` set ?cs = set headers" by (metis set_map)
  with assms(2) have nb: "[] \<notin> fst ` set ?cs" by simp
  have "attach_columns ?cs [] = Inr ([] @ ?cs)"
    using d nb by (rule attach_columns_distinct) simp
  then have b: "build_table DB md fn headers =
      Inr (\<lparr>name = table_name_of fn, columns = ?cs\<rparr>,
           md @ [(table_name_of fn, \<lparr>name = table_name_of fn, columns = ?cs\<rparr>)])"
    using assms(3) by (simp add: build_table_def Table_def Let_def fold_snoc_map)
  have "\<forall>i<length headers. ?cs ! i =
      (headers ! i,
       case declared_type DB (table_name_of fn) (headers ! i) of
         Some t \<Rightarrow> t | None \<Rightarrow> UnicodeText)"
    by (simp add: column_for_type)
  with b show ?thesis by simp
qed

theorem build_table_columns_witness:
  "distinct ex_headers \<and> [] \<notin> set ex_headers \<and>
   map_of ([] :: pystr metadata) (table_name_of (ascii ''names.tsv.gz'')) = None \<and>
   build_table int_registry [] (ascii ''names.tsv.gz'') ex_headers =
     Inr (\<lparr>name = ascii ''names'',
           columns = [(ascii ''id'', Integer), (ascii ''name'', UnicodeText)]\<rparr>,
          [(ascii ''names'',
            \<lparr>name = ascii ''names'',
             columns = [(ascii ''id'', Integer), (ascii ''name'', UnicodeText)]\<rparr>)])"
proof -
  have h1: "distinct ex_headers" by (simp add: ex_headers_def ascii_def)
  have h2: "[] \<notin> set ex_headers" by (simp add: ex_headers_def ascii_def)
  have h3: "map_of ([] :: pystr metadata) (table_name_of (ascii ''names.tsv.gz'')) = None"
    by simp
  have n: "table_name_of (ascii ''names.tsv.gz'') = ascii ''names''"
    by (simp add: table_name_of_def TSV_EXT_def ascii_def)
  have d0: "declared_type int_registry (ascii ''names'') (ascii ''id'') = Some Integer"
    by (simp add: declared_type_def int_registry_def ascii_def)
  have d1: "declared_type int_registry (ascii ''names'') (ascii ''name'') = None"
    by (simp add: declared_type_def int_registry_def ascii_def)
  have h: "ex_headers ! 0 = ascii ''id''" "ex_headers ! Suc 0 = ascii ''name''"
    "length ex_headers = 2"
    by (simp_all add: ex_headers_def)
  from build_table_columns[OF h1 h2 h3, of int_registry]
  obtain tbl where b: "build_table int_registry [] (ascii ''names.tsv.gz'') ex_headers =
        Inr (tbl, [(ascii ''names'', tbl)])"
    and nm: "name tbl = ascii ''names''"
    and len: "length (columns tbl) = 2"
    and col: "\<And>i. i < 2 \<Longrightarrow> columns tbl ! i =
        (ex_headers ! i,
         case declared_type int_registry (ascii ''names'') (ex_headers ! i) of
           Some t \<Rightarrow> t | None \<Rightarrow> UnicodeText)"
    by (auto simp: n h)
  have "(0::nat) < 2" and "(1::nat) < 2" by simp_all
  from col[OF this(1)] col[OF this(2)]
  have c: "columns tbl ! 0 = (ascii ''id'', Integer)"
    "columns tbl ! Suc 0 = (ascii ''name'', UnicodeText)"
    by (simp_all add: h d0 d1)
  from len obtain x y where xy: "columns tbl = [x, y]"
    by (cases "columns tbl"; cases "tl (columns tbl)"; cases "tl (tl (columns tbl))") auto
  with c have "columns tbl = [(ascii ''id'', Integer), (ascii ''name'', UnicodeText)]"
    by simp
  with nm have "tbl = \<lparr>name = ascii ''names'',
      columns = [(ascii ''id'', Integer), (ascii ''name'', UnicodeText)]\<rparr>"
    by (cases tbl) simp
  with b h1 h2 h3 show ?thesis by simp
qed

text \<open>
  As the claim words it, for every list of headers, the property fails: for the header
  that names \<open>id\<close> twice the table has one column, not two; for a blank header
  (the header of an empty file) \<open>sqlalchemy.Table\<close> raises, and so it does for a table
  name that the metadata holds already.
\<close>

theorem build_table_repeated_header_counterexample:
  "length twice_headers = 2 \<and>
   build_table int_registry [] (ascii ''names.tsv.gz'') twice_headers =
     Inr (\<lparr>name = ascii ''names'', columns = [(ascii ''id'', Integer)]\<rparr>,
          [(ascii ''names'', \<lparr>name = ascii ''names'', columns = [(ascii ''id'', Integer)]\<rparr>)]) \<and>
   length (columns \<lparr>name = ascii ''names'', columns = [(ascii ''id'', Integer)]\<rparr>) = 1 \<and>
   build_table int_registry [] (ascii ''names.tsv.gz'') [[]] = Inl ArgumentError \<and>
   build_table int_registry [(ascii ''names'', names_table)] (ascii ''names.tsv.gz'') ex_headers =
     Inl InvalidRequestError"
  by (simp add: build_table_def Table_def table_name_of_def TSV_EXT_def int_registry_def
      twice_headers_def ex_headers_def column_for_def ascii_def Let_def)

subsection \<open>The table name\<close>

lemma replace_only_suffix:
  assumes "old \<noteq> []" and "\<forall>i<length stem. \<not> prefix old (drop i (stem @ old))"
  shows "replace old [] (stem @ old) = stem"
  using assms(2)
proof (induction stem)
  case Nil
  obtain c cs where old: "old = c # cs" using assms(1) by (cases old) auto
  show ?case by (simp add: old)
next
  case (Cons a stem)
  from Cons.prems have "\<not> prefix old (drop 0 ((a # stem) @ old))" by blast
  then have np: "\<not> prefix old (a # stem @ old)" by simp
  have "\<forall>i<length stem. \<not> prefix old (drop i (stem @ old))"
  proof (intro allI impI)
    fix i assume "i < length stem"
    then have "Suc i < length (a # stem)" by simp
    with Cons.prems have "\<not> prefix old (drop (Suc i) ((a # stem) @ old))" by blast
    then show "\<not> prefix old (drop i (stem @ old))" by simp
  qed
  from Cons.IH[OF this] np assms(1) show ?case by simp
qed

lemma replace_no_occurrence:
  assumes "old \<noteq> []" and "\<forall>i<length s. \<not> prefix old (drop i s)"
  shows "replace old [] s = s"
  using assms(2)
proof (induction s)
  case Nil
  from assms(1) show ?case by simp
next
  case (Cons a s)
  from Cons.prems have "\<not> prefix old (drop 0 (a # s))" by blast
  then have np: "\<not> prefix old (a # s)" by simp
  have "\<forall>i<length s. \<not> prefix old (drop i s)"
  proof (intro allI impI)
    fix i assume "i < length s"
    then have "Suc i < length (a # s)" by simp
    with Cons.prems have "\<not> prefix old (drop (Suc i) (a # s))" by blast
    then show "\<not> prefix old (drop i s)" by simp
  qed
  from Cons.IH[OF this] np assms(1) show ?case by simp
qed

lemma replace_char_map: "replace [a] [b] s = map (\<lambda>c. if c = a then b else c) s"
  by (induction s) auto

lemma replace_dots: "replace (ascii ''.'') (ascii ''_'') s = dots_to_underscores s"
  by (simp add: ascii_def replace_char_map dots_to_underscores_def)

lemma TSV_EXT_length: "length TSV_EXT = 7" and TSV_EXT_nonempty: "TSV_EXT \<noteq> []"
  by (simp_all add: TSV_EXT_def ascii_def)

text \<open>
  C6, as the code has it. Line 88 removes every occurrence of \<open>.tsv.gz\<close>, scanning from
  the left, and then replaces every dot by an underscore. When \<open>.tsv.gz\<close> occurs in the
  file name nowhere but as its suffix (or not at all), that is the file name with the
  suffix removed and the remaining dots replaced by underscores; so it is for
  \<open>title_basics.tsv.gz\<close>, whose table is \<open>title_basics\<close>.
\<close>

theorem table_name_of_single_suffix:
  assumes "\<forall>i<length fn. prefix TSV_EXT (drop i fn) \<longrightarrow> i + length TSV_EXT = length fn"
  shows "table_name_of fn = spec_table_name fn"
proof (cases "suffix TSV_EXT fn")
  case True
  then obtain stem where fn: "fn = stem @ TSV_EXT" by (auto simp: suffix_def)
  have "\<forall>i<length stem. \<not> prefix TSV_EXT (drop i (stem @ TSV_EXT))"
  proof (intro allI impI)
    fix i assume i: "i < length stem"
    then have "i < length fn" by (simp add: fn)
    with assms have "prefix TSV_EXT (drop i fn) \<longrightarrow> i + length TSV_EXT = length fn" by blast
    with i show "\<not> prefix TSV_EXT (drop i (stem @ TSV_EXT))" by (auto simp: fn)
  qed
  from replace_only_suffix[OF TSV_EXT_nonempty this]
  have "replace TSV_EXT [] fn = stem" by (simp add: fn)
  with True show ?thesis
    by (simp add: table_name_of_def spec_table_name_def replace_dots fn)
next
  case False
  have "\<forall>i<length fn. \<not> prefix TSV_EXT (drop i fn)"
  proof (intro allI impI notI)
    fix i assume i: "i < length fn" and p: "prefix TSV_EXT (drop i fn)"
    with assms have len: "i + length TSV_EXT = length fn" by blast
    from p obtain zs where z: "drop i fn = TSV_EXT @ zs" by (auto simp: prefix_def)
    then have "length (drop i fn) = length TSV_EXT + length zs" by simp
    then have "length fn - i = length TSV_EXT + length zs" by simp
    with len have "length zs = 0" by arith
    then have "zs = []" by simp
    with z have "fn = take i fn @ TSV_EXT" by (metis append_Nil2 append_take_drop_id)
    then have "suffix TSV_EXT fn" by (metis suffixI)
    with False show False by contradiction
  qed
  from replace_no_occurrence[OF TSV_EXT_nonempty this] False show ?thesis
    by (simp add: table_name_of_def spec_table_name_def replace_dots)
qed

theorem table_name_of_single_suffix_witness:
  "table_name_of (ascii ''title_basics.tsv.gz'') = spec_table_name (ascii ''title_basics.tsv.gz'') \<and>
   spec_table_name (ascii ''title_basics.tsv.gz'') = ascii ''title_basics'' \<and>
   table_name_of (ascii ''title_basics.tsv.gz'') = ascii ''title_basics''"
proof -
  have h: "\<forall>i<length (ascii ''title_basics.tsv.gz'').
      prefix TSV_EXT (drop i (ascii ''title_basics.tsv.gz'')) \<longrightarrow>
      i + length TSV_EXT = length (ascii ''title_basics.tsv.gz'')"
    by (simp add: TSV_EXT_def ascii_def All_less_Suc2)
  have s: "spec_table_name (ascii ''title_basics.tsv.gz'') = ascii ''title_basics''"
    by (simp add: spec_table_name_def dots_to_underscores_def TSV_EXT_def ascii_def suffix_def)
  from table_name_of_single_suffix[OF h] s show ?thesis by simp
qed

text \<open>
  As the claim words it, for every file name, the property fails: in
  \<open>a.tsv.gz.tsv.gz\<close> both occurrences of \<open>.tsv.gz\<close> are removed and the table is \<open>a\<close>,
  where removing the suffix and replacing the dots gives \<open>a_tsv_gz\<close>.
\<close>

theorem table_name_of_counterexample:
  "table_name_of (ascii ''a.tsv.gz.tsv.gz'') = ascii ''a'' \<and>
   spec_table_name (ascii ''a.tsv.gz.tsv.gz'') = ascii ''a_tsv_gz'' \<and>
   table_name_of (ascii ''a.tsv.gz.tsv.gz'') \<noteq> spec_table_name (ascii ''a.tsv.gz.tsv.gz'')"
proof -
  have t: "table_name_of (ascii ''a.tsv.gz.tsv.gz'') = ascii ''a''"
    by (simp add: table_name_of_def TSV_EXT_def ascii_def)
  have s: "spec_table_name (ascii ''a.tsv.gz.tsv.gz'') = ascii ''a_tsv_gz''"
    by (simp add: spec_table_name_def dots_to_underscores_def TSV_EXT_def ascii_def
        suffix_to_prefix)
  have "ascii ''a'' \<noteq> ascii ''a_tsv_gz''" by (simp add: ascii_def)
  with t s show ?thesis by simp
qed

section \<open>Null fields and transforms\<close>

subsection \<open>The row of one line\<close>

lemma map_upds_nth_last:
  assumes "length hs = length vs" and "i < length hs" and "hs ! i \<notin> set (drop (Suc i) hs)"
  shows "(m(hs [\<mapsto>] vs)) (hs ! i) = Some (vs ! i)"
  using assms
proof (induction hs arbitrary: vs i m)
  case Nil
  then show ?case by simp
next
  case (Cons h hs)
  then obtain v vs' where vs: "vs = v # vs'" by (cases vs) auto
  show ?case
  proof (cases i)
    case 0
    with Cons.prems vs have "h \<notin> set hs" by simp
    then have "((m(h \<mapsto> v))(hs [\<mapsto>] vs')) h = (m(h \<mapsto> v)) h"
      by (rule map_upds_apply_nontin)
    with 0 vs show ?thesis by simp
  next
    case (Suc j)
    with Cons.prems vs have "length hs = length vs'" "j < length hs"
      "hs ! j \<notin> set (drop (Suc j) hs)" by simp_all
    from Cons.IH[OF this, of "m(h \<mapsto> v)"]
    have "((m(h \<mapsto> v))(hs [\<mapsto>] vs')) (hs ! j) = Some (vs' ! j)" .
    then show ?thesis unfolding Suc vs by (simp only: map_upds_Cons nth_Cons_Suc)
  qed
qed

lemma zip_row_nth:
  assumes "length fs = length hs" and "i < length hs" and "hs ! i \<notin> set (drop (Suc i) hs)"
  shows "map_of (zip_row hs fs) (hs ! i) = Some (null_field (fs ! i))"
proof -
  from assms(1) have "length hs = length (map null_field fs)" by simp
  from map_upds_nth_last[OF this assms(2,3), of "map_of []"] assms(1,2)
  show ?thesis by (simp add: zip_row_def updates_conv')
qed

lemma apply_transf_other:
  assumes "apply_transf dt info = Inr info'" and "map_of dt k = None"
  shows "map_of info' k = map_of info k"
  using assms
proof (induction dt arbitrary: info)
  case Nil
  then show ?case by simp
next
  case (Cons p dt)
  obtain key tranf where p: "p = (key, tranf)" by (cases p)
  from Cons.prems(2) p have ne: "key \<noteq> k" and rest: "map_of dt k = None"
    by (auto split: if_splits)
  show ?case
  proof (cases "map_of info key")
    case None
    with Cons.prems(1) p have "apply_transf dt info = Inr info'" by simp
    from Cons.IH[OF this rest] show ?thesis .
  next
    case (Some v)
    with Cons.prems(1) p obtain v' where
      a: "apply_transf dt (AList.update key v' info) = Inr info'"
      by (auto split: sum.splits)
    from Cons.IH[OF a rest] ne show ?thesis by (simp add: update_conv')
  qed
qed

lemma apply_transf_key:
  assumes "apply_transf dt info = Inr info'" and "distinct (map fst dt)"
    and "map_of dt k = Some f"
  shows "case map_of info k of
           None \<Rightarrow> map_of info' k = None
         | Some v \<Rightarrow> (\<exists>v'. f v = Inr v' \<and> map_of info' k = Some v')"
  using assms
proof (induction dt arbitrary: info)
  case Nil
  then show ?case by simp
next
  case (Cons p dt)
  obtain key tranf where p: "p = (key, tranf)" by (cases p)
  from Cons.prems(2) p have d: "distinct (map fst dt)" and fresh: "key \<notin> fst ` set dt"
    by simp_all
  show ?case
  proof (cases "key = k")
    case True
    with Cons.prems(3) p have f: "f = tranf" by simp
    from fresh True have none: "map_of dt k = None" by (simp add: map_of_eq_None_iff)
    show ?thesis
    proof (cases "map_of info k")
      case None
      with Cons.prems(1) p True have "apply_transf dt info = Inr info'" by simp
      from apply_transf_other[OF this none] None show ?thesis by simp
    next
      case (Some v)
      with Cons.prems(1) p True obtain v' where v': "tranf v = Inr v'"
        and a: "apply_transf dt (AList.update k v' info) = Inr info'"
        by (auto split: sum.splits)
      from apply_transf_other[OF a none] have "map_of info' k = Some v'"
        by (simp add: update_conv')
      with Some v' f show ?thesis by simp
    qed
  next
    case False
    with Cons.prems(3) p have rest: "map_of dt k = Some f" by simp
    show ?thesis
    proof (cases "map_of info key")
      case None
      with Cons.prems(1) p have "apply_transf dt info = Inr info'" by simp
      from Cons.IH[OF this d rest] show ?thesis .
    next
      case (Some v)
      with Cons.prems(1) p obtain v' where
        a: "apply_transf dt (AList.update key v' info) = Inr info'"
        by (auto split: sum.splits)
      from False have "map_of (AList.update key v' info) k = map_of info k"
        by (simp add: update_conv')
      with Cons.IH[OF a d rest] show ?thesis by simp
    qed
  qed
qed

subsection \<open>The transforms of a table\<close>


lemma fold_transf_distinct:
  assumes "distinct (map fst acc)"
  shows "distinct (map fst (fold (\<lambda>(column, conf) data_transf.
                         (case transform conf of
                            Some f \<Rightarrow> AList.update column f data_transf
                          | None \<Rightarrow> data_transf)) cols acc))"
  using assms
proof (induction cols arbitrary: acc)
  case Nil
  then show ?case by simp
next
  case (Cons p cols)
  obtain c conf where p: "p = (c, conf)" by (cases p)
  show ?case
  proof (cases "transform conf")
    case None
    with Cons p show ?thesis by simp
  next
    case (Some f)
    from Cons.prems have "distinct (map fst (AList.update c f acc))"
      by (rule distinct_update)
    from Cons.IH[OF this] Some p show ?thesis by simp
  qed
qed

lemma data_transf_of_distinct: "distinct (map fst (data_transf_of DB tn))"
  unfolding data_transf_of_def by (rule fold_transf_distinct) simp


subsection \<open>Rows of a run that ends normally\<close>

lemma generate_loop_None:
  assumes "snd (generate_loop dt hs data fd) = None"
  shows "\<forall>l\<in>set fd. \<not> isl (process_line dt hs l)"
  using assms
proof (induction fd arbitrary: data)
  case Nil
  then show ?case by simp
next
  case (Cons l fd)
  show ?case
  proof (cases "process_line dt hs l")
    case (Inl e)
    with Cons.prems show ?thesis by simp
  next
    case (Inr r)
    show ?thesis
    proof (cases r)
      case None
      with Inr Cons show ?thesis by simp
    next
      case (Some info)
      show ?thesis
      proof (cases "BLOCK_SIZE \<le> length (data @ [info])")
        case True
        obtain bs e where g: "generate_loop dt hs [] fd = (bs, e)"
          by (cases "generate_loop dt hs [] fd")
        with Inr Some True Cons.prems have "snd (generate_loop dt hs [] fd) = None"
          by (simp add: Let_def)
        from Cons.IH[OF this] Inr show ?thesis by simp
      next
        case False
        with Inr Some Cons.prems have "snd (generate_loop dt hs (data @ [info]) fd) = None"
          by (simp add: Let_def)
        from Cons.IH[OF this] Inr show ?thesis by simp
      qed
    qed
  qed
qed

lemma rows_of_member:
  assumes "l \<in> set fd" and "process_line dt hs l = Inr (Some row)"
  shows "row \<in> set (rows_of dt hs fd)"
  using assms by (force simp: rows_of_def)

lemma generate_content_emits:
  assumes "snd (generate_content DB fd headers tbl) = None" and "line \<in> set fd"
    and "process_line (data_transf_of DB (name tbl)) headers line = Inr (Some row)"
  shows "row \<in> set (concat (fst (generate_content DB fd headers tbl)))"
proof -
  from assms(1) have "\<forall>l\<in>set fd. \<not> isl (process_line (data_transf_of DB (name tbl)) headers l)"
    unfolding generate_content_def by (rule generate_loop_None)
  from generate_loop_rows[OF this, of "[]"] rows_of_member[OF assms(2,3)]
  show ?thesis by (simp add: generate_content_def)
qed

lemma process_line_Some:
  assumes "process_line dt hs line = Inr (Some row)"
  shows "\<exists>text. decode line = Inr text \<and> length (fields_of text) = length hs \<and>
           apply_transf dt (zip_row hs (fields_of text)) = Inr row"
  using assms
  by (auto simp: process_line_def Let_def split: sum.splits if_splits)

subsection \<open>Claims about null fields and transforms\<close>

text \<open>
  C3, as the code has it. Every row that the generator emits, in any run, is the row of
  a data line whose field count equals the number of headers. For a column without a
  registered transform, a field equal to \<open>\N\<close> is \<open>None\<close> in that row and any other field,
  the empty one too, is kept as the string it is. For a column with a registered
  transform \<open>f\<close> the row holds what \<open>f\<close> returned for \<open>None\<close> when the field is \<open>\N\<close>, and for
  the field otherwise. A field whose header is repeated further right in the header
  line is not in the row: the later field takes its place.
\<close>

theorem null_sentinel_in_emitted_rows:
  assumes "row \<in> set (concat (fst (generate_content DB fd headers tbl)))"
  shows "\<exists>line\<in>set fd. \<exists>t.
           decode line = Inr t \<and> length (fields_of t) = length headers \<and>
           process_line (data_transf_of DB (name tbl)) headers line = Inr (Some row) \<and>
           (\<forall>i<length headers. headers ! i \<notin> set (drop (Suc i) headers) \<longrightarrow>
              (case map_of (data_transf_of DB (name tbl)) (headers ! i) of
                 None \<Rightarrow>
                   (fields_of t ! i = NULL_TOKEN \<longrightarrow> map_of row (headers ! i) = Some PyNone) \<and>
                   (fields_of t ! i \<noteq> NULL_TOKEN \<longrightarrow>
                      map_of row (headers ! i) = Some (PyStr (fields_of t ! i))) \<and>
                   (fields_of t ! i = [] \<longrightarrow> map_of row (headers ! i) = Some (PyStr []))
               | Some f \<Rightarrow>
                   (fields_of t ! i = NULL_TOKEN \<longrightarrow>
                      (\<exists>v'. f PyNone = Inr v' \<and> map_of row (headers ! i) = Some v')) \<and>
                   (fields_of t ! i \<noteq> NULL_TOKEN \<longrightarrow>
                      (\<exists>v'. f (PyStr (fields_of t ! i)) = Inr v' \<and>
                            map_of row (headers ! i) = Some v'))))"
proof -
  let ?dt = "data_transf_of DB (name tbl)"
  from assms have "row \<in> set (concat (fst (generate_loop ?dt headers [] fd)))"
    by (simp add: generate_content_def)
  from generate_loop_row_origin[OF this]
  obtain line where line: "line \<in> set fd" and p: "process_line ?dt headers line = Inr (Some row)"
    by auto
  from process_line_Some[OF p] obtain t where t: "decode line = Inr t"
    and len: "length (fields_of t) = length headers"
    and ap: "apply_transf ?dt (zip_row headers (fields_of t)) = Inr row"
    by blast
  have col: "case map_of ?dt (headers ! i) of
        None \<Rightarrow>
          (fields_of t ! i = NULL_TOKEN \<longrightarrow> map_of row (headers ! i) = Some PyNone) \<and>
          (fields_of t ! i \<noteq> NULL_TOKEN \<longrightarrow>
             map_of row (headers ! i) = Some (PyStr (fields_of t ! i))) \<and>
          (fields_of t ! i = [] \<longrightarrow> map_of row (headers ! i) = Some (PyStr []))
      | Some f \<Rightarrow>
          (fields_of t ! i = NULL_TOKEN \<longrightarrow>
             (\<exists>v'. f PyNone = Inr v' \<and> map_of row (headers ! i) = Some v')) \<and>
          (fields_of t ! i \<noteq> NULL_TOKEN \<longrightarrow>
             (\<exists>v'. f (PyStr (fields_of t ! i)) = Inr v' \<and> map_of row (headers ! i) = Some v'))"
    if i: "i < length headers" and last: "headers ! i \<notin> set (drop (Suc i) headers)" for i
  proof -
    have z: "map_of (zip_row headers (fields_of t)) (headers ! i) =
        Some (null_field (fields_of t ! i))"
      using len i last by (rule zip_row_nth)
    show ?thesis
    proof (cases "map_of ?dt (headers ! i)")
      case None
      from apply_transf_other[OF ap None] z
      have "map_of row (headers ! i) = Some (null_field (fields_of t ! i))" by simp
      with None show ?thesis by (auto simp: null_field_def NULL_TOKEN_def)
    next
      case (Some f)
      from apply_transf_key[OF ap data_transf_of_distinct Some]
      have "\<exists>v'. f (null_field (fields_of t ! i)) = Inr v' \<and> map_of row (headers ! i) = Some v'"
        by (simp add: z)
      with Some show ?thesis by (auto simp: null_field_def)
    qed
  qed
  with line t len p show ?thesis by blast
qed

theorem null_sentinel_in_emitted_rows_witness:
  "[(ascii ''id'', PyObj 2), (ascii ''name'', PyNone)]
     \<in> set (concat (fst (generate_content int_registry ex_lines ex_headers names_table))) \<and>
   map_of (data_transf_of int_registry (name names_table)) (ascii ''name'') = None \<and>
   map_of (data_transf_of int_registry (name names_table)) (ascii ''id'') = Some transf_int \<and>
   decode ex_line_null = Inr [50, 9, 92, 78, 10] \<and>
   fields_of [50, 9, 92, 78, 10] = [ascii ''2'', NULL_TOKEN] \<and>
   transf_int (PyStr (ascii ''2'')) = Inr (PyObj 2) \<and>
   (\<exists>line\<in>set ex_lines. \<exists>t.
      decode line = Inr t \<and> length (fields_of t) = length ex_headers \<and>
      process_line (data_transf_of int_registry (name names_table)) ex_headers line =
        Inr (Some [(ascii ''id'', PyObj 2), (ascii ''name'', PyNone)]) \<and>
      fields_of t ! 1 = NULL_TOKEN \<and>
      map_of [(ascii ''id'', PyObj (2::nat)), (ascii ''name'', PyNone)] (ex_headers ! 1) =
        Some PyNone)"
proof -
  let ?row = "[(ascii ''id'', PyObj (2::nat)), (ascii ''name'', PyNone)]"
  let ?dt = "data_transf_of int_registry (name names_table)"
  have h: "?row \<in> set (concat (fst (generate_content int_registry ex_lines ex_headers
      names_table)))"
    by (simp add: generate_ex_lines_int)
  have m1: "map_of ?dt (ascii ''name'') = None"
    by (simp add: data_transf_int_registry ascii_def)
  have m2: "map_of ?dt (ascii ''id'') = Some transf_int"
    by (simp add: data_transf_int_registry)
  have f: "fields_of [50, 9, 92, 78, 10] = [ascii ''2'', NULL_TOKEN]"
    by (simp add: fields_ex_line_null ascii_def)
  have ti: "transf_int (PyStr (ascii ''2'')) = Inr (PyObj 2)"
    by (simp add: transf_int_def ascii_def)
  have i1: "1 < length ex_headers" "ex_headers ! 1 \<notin> set (drop (Suc 1) ex_headers)"
    "ex_headers ! 1 = ascii ''name''"
    by (simp_all add: ex_headers_def)
  from null_sentinel_in_emitted_rows[OF h]
  obtain line t where line: "line \<in> set ex_lines" and t: "decode line = Inr t"
    and len: "length (fields_of t) = length ex_headers"
    and p: "process_line ?dt ex_headers line = Inr (Some ?row)"
    and col: "\<And>i. i < length ex_headers \<Longrightarrow>
        ex_headers ! i \<notin> set (drop (Suc i) ex_headers) \<Longrightarrow>
        (case map_of ?dt (ex_headers ! i) of
           None \<Rightarrow>
             (fields_of t ! i = NULL_TOKEN \<longrightarrow> map_of ?row (ex_headers ! i) = Some PyNone) \<and>
             (fields_of t ! i \<noteq> NULL_TOKEN \<longrightarrow>
                map_of ?row (ex_headers ! i) = Some (PyStr (fields_of t ! i))) \<and>
             (fields_of t ! i = [] \<longrightarrow> map_of ?row (ex_headers ! i) = Some (PyStr []))
         | Some f \<Rightarrow>
             (fields_of t ! i = NULL_TOKEN \<longrightarrow>
                (\<exists>v'. f PyNone = Inr v' \<and> map_of ?row (ex_headers ! i) = Some v')) \<and>
             (fields_of t ! i \<noteq> NULL_TOKEN \<longrightarrow>
                (\<exists>v'. f (PyStr (fields_of t ! i)) = Inr v' \<and>
                      map_of ?row (ex_headers ! i) = Some v')))"
    by blast
  from col[OF i1(1,2)] m1 i1(3)
  have c: "(fields_of t ! 1 = NULL_TOKEN \<longrightarrow> map_of ?row (ex_headers ! 1) = Some PyNone) \<and>
      (fields_of t ! 1 \<noteq> NULL_TOKEN \<longrightarrow>
         map_of ?row (ex_headers ! 1) = Some (PyStr (fields_of t ! 1)))"
    by simp
  have v: "map_of ?row (ex_headers ! 1) = Some PyNone"
    by (simp add: ex_headers_def ascii_def)
  from c v have n: "fields_of t ! 1 = NULL_TOKEN" by auto
  from line t len p n v
  have "\<exists>line\<in>set ex_lines. \<exists>t.
      decode line = Inr t \<and> length (fields_of t) = length ex_headers \<and>
      process_line ?dt ex_headers line = Inr (Some ?row) \<and>
      fields_of t ! 1 = NULL_TOKEN \<and> map_of ?row (ex_headers ! 1) = Some PyNone"
    by blast
  with h m1 m2 f ti show ?thesis by (simp add: decode_ex_line_null)
qed

text \<open>
  As the claim words it, for every emitted row, the property fails: with a transform
  in the manner of \<open>x or ''\<close> registered for the column \<open>name\<close>, the line \<open>2<TAB>\N\<close>
  gives a row whose \<open>name\<close> is the empty string, not \<open>None\<close>. And under a header that
  names \<open>id\<close> twice, the first field of the line \<open>\N<TAB>Bob\<close> is not in the row.
\<close>

theorem null_sentinel_transformed_counterexample:
  "decode ex_line_null = Inr [50, 9, 92, 78, 10] \<and>
   fields_of [50, 9, 92, 78, 10] = [[50], NULL_TOKEN] \<and>
   length ex_headers = 2 \<and>
   generate_content blank_registry [ex_line_null] ex_headers names_table =
     ([[[(ascii ''id'', PyStr [50]), (ascii ''name'', PyStr [])]]], None) \<and>
   map_of [(ascii ''id'', PyStr [50]), (ascii ''name'', PyStr [])] (ascii ''name'') \<noteq>
     Some (PyNone :: nat pyval) \<and>
   generate_content ([] :: (nat, pystr) registry) [ex_line_null_id] twice_headers names_table =
     ([[[(ascii ''id'', PyStr (ascii ''Bob''))]]], None)"
proof -
  have q: "process_line ([] :: (pystr \<times> (nat pyval \<Rightarrow> exn + nat pyval)) list) twice_headers
      ex_line_null_id = Inr (Some [(ascii ''id'', PyStr (ascii ''Bob''))])"
    by (simp add: process_line_def decode_ex_line_null_id fields_ex_line_null_id
        twice_headers_def zip_row_def null_field_def NULL_TOKEN_def ascii_def)
  have g2: "generate_content ([] :: (nat, pystr) registry) [ex_line_null_id] twice_headers
      names_table = ([[[(ascii ''id'', PyStr (ascii ''Bob''))]]], None)"
    by (simp add: generate_content_def data_transf_of_def q small_below_BLOCK_SIZE)
  have p: "process_line [(ascii ''name'', transf_blank)] ex_headers ex_line_null =
      Inr (Some [(ascii ''id'', PyStr [50]), (ascii ''name'', PyStr [])])"
    by (simp add: process_line_def decode_ex_line_null fields_ex_line_null ex_headers_def
        zip_row_def null_field_def NULL_TOKEN_def transf_blank_def ascii_def)
  have g: "generate_content blank_registry [ex_line_null] ex_headers names_table =
     ([[[(ascii ''id'', PyStr [50]), (ascii ''name'', PyStr [])]]], None)"
    by (simp add: generate_content_def data_transf_blank_registry p small_below_BLOCK_SIZE)
  have m: "map_of [(ascii ''id'', PyStr [50]), (ascii ''name'', PyStr [])] (ascii ''name'') \<noteq>
     Some (PyNone :: nat pyval)"
    by (simp add: ascii_def)
  from g m g2 show ?thesis
    by (simp add: decode_ex_line_null fields_ex_line_null ex_headers_def)
qed



section \<open>The File Importer and the Directory Importer\<close>

subsection \<open>The loop over the blocks\<close>

lemma insert_blocks_ok:
  assumes "insert_blocks eng tbl blocks d count block = (d', count', block', None)"
  shows "count' = count + length (concat blocks) \<and>
         block' = (if blocks = [] then block else last blocks)"
  using assms
proof (induction blocks arbitrary: d count block)
  case Nil
  then show ?case by simp
next
  case (Cons b blocks)
  show ?case
  proof (cases "execute eng d tbl b")
    case (Inl e)
    with Cons.prems show ?thesis by simp
  next
    case (Inr d1)
    with Cons.prems
    have "insert_blocks eng tbl blocks d1 (count + length b) b = (d', count', block', None)"
      by simp
    from Cons.IH[OF this] show ?thesis by simp
  qed
qed

lemma insert_blocks_failure:
  assumes "insert_blocks eng tbl blocks d count block = (d', count', block', Some e)"
  shows "\<exists>pre post b0.
           blocks = pre @ block' # post \<and>
           insert_blocks eng tbl pre d count block = (d', count', b0, None) \<and>
           execute eng d' tbl block' = Inl e"
  using assms
proof (induction blocks arbitrary: d count block)
  case Nil
  then show ?case by simp
next
  case (Cons b blocks)
  show ?case
  proof (cases "execute eng d tbl b")
    case (Inl e')
    with Cons.prems have "d' = d" "count' = count" "block' = b" "e' = e" by simp_all
    with Inl have "b # blocks = [] @ block' # blocks \<and>
        insert_blocks eng tbl [] d count block = (d', count', block, None) \<and>
        execute eng d' tbl block' = Inl e"
      by simp
    then show ?thesis by blast
  next
    case (Inr d1)
    with Cons.prems
    have "insert_blocks eng tbl blocks d1 (count + length b) b = (d', count', block', Some e)"
      by simp
    from Cons.IH[OF this] obtain pre post b0 where
      "blocks = pre @ block' # post"
      "insert_blocks eng tbl pre d1 (count + length b) b = (d', count', b0, None)"
      "execute eng d' tbl block' = Inl e"
      by blast
    with Inr have "b # blocks = (b # pre) @ block' # post \<and>
        insert_blocks eng tbl (b # pre) d count block = (d', count', b0, None) \<and>
        execute eng d' tbl block' = Inl e"
      by simp
    then show ?thesis by blast
  qed
qed

subsection \<open>What \<open>import_file\<close> logs\<close>

lemma import_file_header_error:
  assumes "decode (fst (readline gz_file)) = Inl e"
  shows "import_file DB eng fn gz_file w = (log_add (Info_begin fn) w, Some e)"
proof -
  obtain first fd where r: "readline gz_file = (first, fd)" by (cases "readline gz_file")
  with assms show ?thesis by (simp add: import_file_def Let_def)
qed

lemma import_file_build_error:
  assumes "decode (fst (readline gz_file)) = Inr text"
    and "build_table DB (metadata w) (basename fn) (fields_of text) = Inl e"
  shows "import_file DB eng fn gz_file w =
           (log_add (Debug_building (basename fn)) (log_add (Info_begin fn) w), Some e)"
proof -
  obtain first fd where r: "readline gz_file = (first, fd)" by (cases "readline gz_file")
  with assms show ?thesis by (simp add: import_file_def Let_def log_add_def)
qed

lemma import_file_unfold:
  assumes "decode (fst (readline gz_file)) = Inr text"
    and "build_table DB (metadata w) (basename fn) (fields_of text) = Inr (tbl, md)"
    and "create_all eng (db w) tbl = Inr d0"
    and "generate_content DB (snd (readline gz_file)) (fields_of text) tbl = (blocks, gen_exn)"
    and "insert_blocks eng tbl blocks d0 0 [] = (d, count, block, ins_exn)"
  shows "import_file DB eng fn gz_file w =
           (\<lparr>db = d,
             log = log w @ [Info_begin fn, Debug_building (basename fn)] @
                   (case (case ins_exn of Some e \<Rightarrow> Some e | None \<Rightarrow> gen_exn) of
                      Some e \<Rightarrow> [Error_lost (length block) e]
                    | None \<Rightarrow> []) @
                   [Info_end fn count],
             metadata = md\<rparr>, None)"
proof -
  obtain first fd where r: "readline gz_file = (first, fd)" by (cases "readline gz_file")
  with assms show ?thesis
    by (simp add: import_file_def Let_def log_add_def split: option.splits)
qed

text \<open>
  When \<open>connection.execute\<close> raises on a block, the rows reported lost are the rows of
  that block, the count is that of the blocks inserted before it, and no later block
  is tried.
\<close>

lemma import_file_insert_error:
  assumes "decode (fst (readline gz_file)) = Inr text"
    and "build_table DB (metadata w) (basename fn) (fields_of text) = Inr (tbl, md)"
    and "create_all eng (db w) tbl = Inr d0"
    and "generate_content DB (snd (readline gz_file)) (fields_of text) tbl = (blocks, gen_exn)"
    and "insert_blocks eng tbl blocks d0 0 [] = (d, count, block, Some e)"
  shows "\<exists>pre post.
           blocks = pre @ block # post \<and> count = length (concat pre) \<and>
           execute eng d tbl block = Inl e \<and>
           import_file DB eng fn gz_file w =
             (\<lparr>db = d,
               log = log w @ [Info_begin fn, Debug_building (basename fn),
                              Error_lost (length block) e, Info_end fn (length (concat pre))],
               metadata = md\<rparr>,
              None)"
proof -
  from insert_blocks_failure[OF assms(5)] obtain pre post b0 where
    b: "blocks = pre @ block # post"
    and p: "insert_blocks eng tbl pre d0 0 [] = (d, count, b0, None)"
    and x: "execute eng d tbl block = Inl e"
    by blast
  from insert_blocks_ok[OF p] have c: "count = length (concat pre)" by simp
  from import_file_unfold[OF assms] c
  have "import_file DB eng fn gz_file w =
      (\<lparr>db = d,
        log = log w @ [Info_begin fn, Debug_building (basename fn),
                       Error_lost (length block) e, Info_end fn (length (concat pre))],
        metadata = md\<rparr>,
       None)"
    by simp
  with b c x show ?thesis by blast
qed

text \<open>
  When the generator raises and every insert succeeded, the variable \<open>block\<close> still holds
  the last block that was yielded (or the initial empty list): the rows reported lost
  are the rows of a block that was inserted and that the count includes.
\<close>

lemma import_file_generator_error:
  assumes "decode (fst (readline gz_file)) = Inr text"
    and "build_table DB (metadata w) (basename fn) (fields_of text) = Inr (tbl, md)"
    and "create_all eng (db w) tbl = Inr d0"
    and "generate_content DB (snd (readline gz_file)) (fields_of text) tbl = (blocks, Some e)"
    and "insert_blocks eng tbl blocks d0 0 [] = (d, count, block, None)"
  shows "import_file DB eng fn gz_file w =
           (\<lparr>db = d,
             log = log w @ [Info_begin fn, Debug_building (basename fn),
                            Error_lost (if blocks = [] then 0 else length (last blocks)) e,
                            Info_end fn (length (concat blocks))],
             metadata = md\<rparr>,
            None)"
proof -
  from insert_blocks_ok[OF assms(5)]
  have "count = length (concat blocks)" "block = (if blocks = [] then [] else last blocks)"
    by simp_all
  with import_file_unfold[OF assms] show ?thesis by simp
qed

subsection \<open>The example files\<close>

lemma basename_names: "basename (ascii ''names.tsv.gz'') = ascii ''names.tsv.gz''"
  by (simp add: basename_def ascii_def)

lemma build_table_names:
  "build_table int_registry [] (ascii ''names.tsv.gz'') ex_headers =
     Inr (names_table, [(ascii ''names'', names_table)])"
  by (simp add: build_table_def Table_def table_name_of_def TSV_EXT_def int_registry_def
      ex_headers_def column_for_def ascii_def Let_def names_table_def)

lemma process_ex_line_invalid: "process_line dt hs ex_line_invalid = Inl UnicodeDecodeError"
  by (simp add: process_line_def decode_ex_line_invalid)

lemma generate_broken_file:
  "generate_content int_registry [ex_line_alice, ex_line_invalid] ex_headers names_table =
     ([], Some UnicodeDecodeError)"
  by (simp add: generate_content_def data_transf_int_registry process_ex_line_alice_int
      process_ex_line_invalid small_below_BLOCK_SIZE)

lemma import_broken_file:
  "import_file int_registry ex_engine (ascii ''names.tsv.gz'') broken_file ex_world =
     (\<lparr>db = [],
       log = [Info_begin (ascii ''names.tsv.gz''),
              Debug_building (ascii ''names.tsv.gz''),
              Error_lost 0 UnicodeDecodeError,
              Info_end (ascii ''names.tsv.gz'') 0],
       metadata = [(ascii ''names'', names_table)]\<rparr>, None)"
proof -
  have r: "readline broken_file = (ex_header_line, [ex_line_alice, ex_line_invalid])"
    by (simp add: readline_def broken_file_def)
  have h1: "decode (fst (readline broken_file)) = Inr [105, 100, 9, 110, 97, 109, 101, 10]"
    by (simp add: r decode_ex_header_line)
  have h2: "build_table int_registry (metadata ex_world) (basename (ascii ''names.tsv.gz''))
      (fields_of [105, 100, 9, 110, 97, 109, 101, 10]) =
      Inr (names_table, [(ascii ''names'', names_table)])"
    by (simp add: ex_world_def basename_names fields_ex_header_line build_table_names)
  have h3: "create_all ex_engine (db ex_world) names_table = Inr []"
    by (simp add: ex_engine_def ex_world_def)
  have h4: "generate_content int_registry (snd (readline broken_file))
      (fields_of [105, 100, 9, 110, 97, 109, 101, 10]) names_table =
      ([], Some UnicodeDecodeError)"
    by (simp add: r fields_ex_header_line generate_broken_file)
  have h5: "insert_blocks ex_engine names_table [] [] 0 [] = ([], 0, [], None)"
    by simp
  from import_file_generator_error[OF h1 h2 h3 h4 h5] show ?thesis
    by (simp add: basename_names ex_world_def)
qed

lemma import_empty_file:
  "import_file int_registry ex_engine (ascii ''names.tsv.gz'') [] ex_world =
     (\<lparr>db = [],
       log = [Info_begin (ascii ''names.tsv.gz''), Debug_building (ascii ''names.tsv.gz'')],
       metadata = []\<rparr>, Some ArgumentError)"
proof -
  have h1: "decode (fst (readline [])) = Inr []"
    by (simp add: readline_def decode_def)
  have f: "fields_of [] = [[]]"
    by (simp add: fields_of_def strip_def)
  have h2: "build_table int_registry (metadata ex_world) (basename (ascii ''names.tsv.gz''))
      (fields_of []) = Inl ArgumentError"
    by (simp add: f build_table_def Table_def ex_world_def column_for_def Let_def)
  from import_file_build_error[OF h1 h2, of ex_engine] show ?thesis
    by (simp add: basename_names log_add_def ex_world_def)
qed

lemma import_file_table_defined:
  "import_file int_registry ex_engine (ascii ''names.tsv.gz'') (ex_header_line # ex_lines)
     (ex_world\<lparr>metadata := [(ascii ''names'', names_table)]\<rparr>) =
     (\<lparr>db = [],
       log = [Info_begin (ascii ''names.tsv.gz''), Debug_building (ascii ''names.tsv.gz'')],
       metadata = [(ascii ''names'', names_table)]\<rparr>, Some InvalidRequestError)"
proof -
  have h1: "decode (fst (readline (ex_header_line # ex_lines))) =
      Inr [105, 100, 9, 110, 97, 109, 101, 10]"
    by (simp add: readline_def decode_ex_header_line)
  have b: "build_table int_registry [(ascii ''names'', names_table)] (ascii ''names.tsv.gz'')
      ex_headers = Inl InvalidRequestError"
    by (simp add: build_table_def Table_def table_name_of_def TSV_EXT_def ex_headers_def
        ascii_def Let_def)
  have h2: "build_table int_registry
      (metadata (ex_world\<lparr>metadata := [(ascii ''names'', names_table)]\<rparr>))
      (basename (ascii ''names.tsv.gz'')) (fields_of [105, 100, 9, 110, 97, 109, 101, 10]) =
      Inl InvalidRequestError"
    by (simp add: basename_names fields_ex_header_line b)
  from import_file_build_error[OF h1 h2, of ex_engine] show ?thesis
    by (simp add: basename_names log_add_def ex_world_def)
qed

lemma import_refused_file:
  "import_file int_registry refusing_engine (ascii ''names.tsv.gz'')
     (ex_header_line # ex_lines) ex_world =
     (\<lparr>db = [],
       log = [Info_begin (ascii ''names.tsv.gz''), Debug_building (ascii ''names.tsv.gz'')],
       metadata = [(ascii ''names'', names_table)]\<rparr>,
      Some (Raised (ascii ''OperationalError'')))"
  by (simp add: import_file_def readline_def decode_ex_header_line fields_ex_header_line
      basename_names build_table_names refusing_engine_def log_add_def ex_world_def Let_def)

subsection \<open>Claims about the importers\<close>

text \<open>
  C7. The diagnostic of line 121 reports \<open>len(block)\<close>, where \<open>block\<close> is the last block
  that the generator yielded. In the file below the generator has built the row of the
  line \<open>1<TAB>Alice\<close> when the next line, which is not valid UTF-8, raises: the row is
  in the buffer, is never inserted, and the diagnostic reports 0 rows lost.
\<close>

theorem import_file_lost_rows_misreported:
  "process_line (data_transf_of int_registry (name names_table)) ex_headers ex_line_alice =
     Inr (Some [(ascii ''id'', PyObj 1), (ascii ''name'', PyStr (ascii ''Alice''))]) \<and>
   process_line (data_transf_of int_registry (name names_table)) ex_headers ex_line_invalid =
     Inl UnicodeDecodeError \<and>
   import_file int_registry ex_engine (ascii ''names.tsv.gz'')
     [ex_header_line, ex_line_alice, ex_line_invalid] ex_world =
     (\<lparr>db = [],
       log = [Info_begin (ascii ''names.tsv.gz''),
              Debug_building (ascii ''names.tsv.gz''),
              Error_lost 0 UnicodeDecodeError,
              Info_end (ascii ''names.tsv.gz'') 0],
       metadata = [(ascii ''names'', names_table)]\<rparr>, None)"
  using import_broken_file
  by (simp add: data_transf_int_registry process_ex_line_alice_int process_ex_line_invalid
      broken_file_def)

text \<open>
  C8, as the code has it. What the generator or \<open>connection.execute\<close> raises inside the
  loop over the blocks never leaves \<open>import_file\<close>: when the header line decodes, the
  table can be built and the table can be created, \<open>import_file\<close> returns normally and
  \<open>import_dir\<close> goes on with the next entry. What is raised before the loop (by decoding
  the header, by \<open>build_table\<close> or by \<open>create_all\<close>) is outside the \<open>try\<close> statement.
\<close>

theorem import_file_block_errors_contained:
  assumes "decode (fst (readline gz_file)) = Inr text"
    and "build_table DB (metadata w) (basename fn) (fields_of text) = Inr (tbl, md)"
    and "create_all eng (db w) tbl = Inr d0"
  shows "snd (import_file DB eng fn gz_file w) = None \<and>
         import_dir DB eng ((fn, Regular_file gz_file) # rest) w =
           import_dir DB eng rest (fst (import_file DB eng fn gz_file w))"
proof -
  obtain blocks gen_exn where
    g: "generate_content DB (snd (readline gz_file)) (fields_of text) tbl = (blocks, gen_exn)"
    by (cases "generate_content DB (snd (readline gz_file)) (fields_of text) tbl")
  obtain d count block ins_exn where
    i: "insert_blocks eng tbl blocks d0 0 [] = (d, count, block, ins_exn)"
    by (cases "insert_blocks eng tbl blocks d0 0 []")
  from import_file_unfold[OF assms g i]
  have s: "snd (import_file DB eng fn gz_file w) = None" by simp
  then obtain w' where w': "import_file DB eng fn gz_file w = (w', None)"
    by (cases "import_file DB eng fn gz_file w") simp
  then have "import_dir DB eng ((fn, Regular_file gz_file) # rest) w =
      import_dir DB eng rest (fst (import_file DB eng fn gz_file w))"
    by simp
  with s show ?thesis by simp
qed

text \<open>
  The witness: the second data line of the first file is not valid UTF-8, and the
  second file is imported all the same.
\<close>

theorem import_file_block_errors_contained_witness:
  "decode (fst (readline broken_file)) = Inr [105, 100, 9, 110, 97, 109, 101, 10] \<and>
   build_table int_registry (metadata ex_world) (basename (ascii ''names.tsv.gz''))
     (fields_of [105, 100, 9, 110, 97, 109, 101, 10]) =
     Inr (names_table, [(ascii ''names'', names_table)]) \<and>
   create_all ex_engine (db ex_world) names_table = Inr [] \<and>
   snd (import_file int_registry ex_engine (ascii ''names.tsv.gz'') broken_file ex_world) = None \<and>
   import_dir int_registry ex_engine
     [(ascii ''names.tsv.gz'', Regular_file broken_file),
      (ascii ''people.tsv.gz'', Regular_file (ex_header_line # ex_lines))] ex_world =
   import_dir int_registry ex_engine
     [(ascii ''people.tsv.gz'', Regular_file (ex_header_line # ex_lines))]
     \<lparr>db = [],
      log = [Info_begin (ascii ''names.tsv.gz''),
             Debug_building (ascii ''names.tsv.gz''),
             Error_lost 0 UnicodeDecodeError,
             Info_end (ascii ''names.tsv.gz'') 0],
      metadata = [(ascii ''names'', names_table)]\<rparr>"
proof -
  have h1: "decode (fst (readline broken_file)) = Inr [105, 100, 9, 110, 97, 109, 101, 10]"
    by (simp add: readline_def broken_file_def decode_ex_header_line)
  have h2: "build_table int_registry (metadata ex_world) (basename (ascii ''names.tsv.gz''))
      (fields_of [105, 100, 9, 110, 97, 109, 101, 10]) =
      Inr (names_table, [(ascii ''names'', names_table)])"
    by (simp add: ex_world_def basename_names fields_ex_header_line build_table_names)
  have h3: "create_all ex_engine (db ex_world) names_table = Inr []"
    by (simp add: ex_engine_def ex_world_def)
  have f: "fst (import_file int_registry ex_engine (ascii ''names.tsv.gz'') broken_file ex_world) =
     \<lparr>db = [],
      log = [Info_begin (ascii ''names.tsv.gz''),
             Debug_building (ascii ''names.tsv.gz''),
             Error_lost 0 UnicodeDecodeError,
             Info_end (ascii ''names.tsv.gz'') 0],
      metadata = [(ascii ''names'', names_table)]\<rparr>"
    by (simp add: import_broken_file)
  from import_file_block_errors_contained[OF h1 h2 h3,
      of "[(ascii ''people.tsv.gz'', Regular_file (ex_header_line # ex_lines))]"]
    h1 h2 h3 show ?thesis
    by (simp only: f)
qed

text \<open>
  As the claim words it, for every failure while importing a file, the property fails:
  the header line of the first file is not valid UTF-8, line 111 raises outside the
  \<open>try\<close> statement, the exception leaves \<open>import_dir\<close> and the second file is never
  opened. So it is when the first file is empty: its header is one blank name, and
  \<open>sqlalchemy.Table\<close> raises at line 96. And so it is when the database refuses to
  create the table at line 114.
\<close>

theorem import_dir_header_error_counterexample:
  "import_dir int_registry ex_engine
     [(ascii ''a.tsv.gz'', Regular_file headless_file),
      (ascii ''names.tsv.gz'', Regular_file (ex_header_line # ex_lines))] ex_world =
     (\<lparr>db = [], log = [Info_begin (ascii ''a.tsv.gz'')], metadata = []\<rparr>,
      Some UnicodeDecodeError) \<and>
   import_dir int_registry ex_engine
     [(ascii ''names.tsv.gz'', Regular_file []),
      (ascii ''people.tsv.gz'', Regular_file (ex_header_line # ex_lines))] ex_world =
     (\<lparr>db = [],
       log = [Info_begin (ascii ''names.tsv.gz''), Debug_building (ascii ''names.tsv.gz'')],
       metadata = []\<rparr>,
      Some ArgumentError) \<and>
   import_dir int_registry refusing_engine
     [(ascii ''names.tsv.gz'', Regular_file (ex_header_line # ex_lines)),
      (ascii ''people.tsv.gz'', Regular_file (ex_header_line # ex_lines))] ex_world =
     (\<lparr>db = [],
       log = [Info_begin (ascii ''names.tsv.gz''), Debug_building (ascii ''names.tsv.gz'')],
       metadata = [(ascii ''names'', names_table)]\<rparr>,
      Some (Raised (ascii ''OperationalError'')))"
proof -
  have "decode (fst (readline headless_file)) = Inl UnicodeDecodeError"
    by (simp add: readline_def headless_file_def decode_ex_line_invalid)
  from import_file_header_error[OF this, of int_registry ex_engine "ascii ''a.tsv.gz''" ex_world]
  have a: "import_file int_registry ex_engine (ascii ''a.tsv.gz'') headless_file ex_world =
      (\<lparr>db = [], log = [Info_begin (ascii ''a.tsv.gz'')], metadata = []\<rparr>,
       Some UnicodeDecodeError)"
    by (simp add: log_add_def ex_world_def)
  show ?thesis by (simp add: a import_empty_file import_refused_file)
qed

end
